theory Spec2Isabelle
  imports Complex_Main
begin

section \<open>Time units and intervals\<close>

text \<open>
  \<^verbatim>\<open>TimeUnit\<close> and \<^verbatim>\<open>ITimeInterval\<close> of \<^verbatim>\<open>core/defs\<close>. JavaScript numbers are modelled
  as reals (finite values only: no NaN, no infinities, no rounding error); the timestamp
  held by a \<^verbatim>\<open>Date\<close> is an integer number of milliseconds.
\<close>

datatype TimeUnit = millisecond | second | minute | hour | day | week | month | year

record ITimeInterval =
  timeUnit :: TimeUnit
  count :: int

text \<open>
  Modelled from the spec: \<^verbatim>\<open>$time.getDuration\<close> of \<^verbatim>\<open>core/utils/Time.ts\<close>, which is not
  among the sources. The duration of a unit is exact for the fixed-length units
  (millisecond to week) and approximate for month and year (30 and 365 days); the duration of
  \<open>count\<close> units is \<open>count\<close> times the duration of one. The count defaults to 1.
\<close>

fun timeUnitDurations :: "TimeUnit \<Rightarrow> int" where
  "timeUnitDurations millisecond = 1"
| "timeUnitDurations second = 1000"
| "timeUnitDurations minute = 60000"
| "timeUnitDurations hour = 3600000"
| "timeUnitDurations day = 86400000"
| "timeUnitDurations week = 604800000"
| "timeUnitDurations month = 2592000000"
| "timeUnitDurations year = 31536000000"

definition getDuration :: "TimeUnit \<Rightarrow> real \<Rightarrow> real" where
  "getDuration unit cnt = of_int (timeUnitDurations unit) * cnt"

definition intervalDuration :: "ITimeInterval \<Rightarrow> real" where
  "intervalDuration gi = getDuration (timeUnit gi) (of_int (count gi))"

section \<open>The interval catalog\<close>

text \<open>The intervals that the constructor of \<^verbatim>\<open>DateAxis\<close> pushes to \<^verbatim>\<open>gridIntervals\<close>.\<close>

definition defaultGridIntervals :: "ITimeInterval list" where
  "defaultGridIntervals =
    [\<lparr>timeUnit = millisecond, count = 1\<rparr>,
     \<lparr>timeUnit = millisecond, count = 5\<rparr>,
     \<lparr>timeUnit = millisecond, count = 10\<rparr>,
     \<lparr>timeUnit = millisecond, count = 50\<rparr>,
     \<lparr>timeUnit = millisecond, count = 100\<rparr>,
     \<lparr>timeUnit = millisecond, count = 500\<rparr>,
     \<lparr>timeUnit = second, count = 1\<rparr>,
     \<lparr>timeUnit = second, count = 5\<rparr>,
     \<lparr>timeUnit = second, count = 10\<rparr>,
     \<lparr>timeUnit = second, count = 30\<rparr>,
     \<lparr>timeUnit = minute, count = 1\<rparr>,
     \<lparr>timeUnit = minute, count = 5\<rparr>,
     \<lparr>timeUnit = minute, count = 10\<rparr>,
     \<lparr>timeUnit = minute, count = 15\<rparr>,
     \<lparr>timeUnit = minute, count = 30\<rparr>,
     \<lparr>timeUnit = hour, count = 1\<rparr>,
     \<lparr>timeUnit = hour, count = 3\<rparr>,
     \<lparr>timeUnit = hour, count = 6\<rparr>,
     \<lparr>timeUnit = hour, count = 12\<rparr>,
     \<lparr>timeUnit = day, count = 1\<rparr>,
     \<lparr>timeUnit = day, count = 2\<rparr>,
     \<lparr>timeUnit = day, count = 3\<rparr>,
     \<lparr>timeUnit = day, count = 4\<rparr>,
     \<lparr>timeUnit = day, count = 5\<rparr>,
     \<lparr>timeUnit = week, count = 1\<rparr>,
     \<lparr>timeUnit = month, count = 1\<rparr>,
     \<lparr>timeUnit = month, count = 2\<rparr>,
     \<lparr>timeUnit = month, count = 3\<rparr>,
     \<lparr>timeUnit = month, count = 6\<rparr>,
     \<lparr>timeUnit = year, count = 1\<rparr>,
     \<lparr>timeUnit = year, count = 2\<rparr>,
     \<lparr>timeUnit = year, count = 5\<rparr>,
     \<lparr>timeUnit = year, count = 10\<rparr>,
     \<lparr>timeUnit = year, count = 50\<rparr>,
     \<lparr>timeUnit = year, count = 100\<rparr>,
     \<lparr>timeUnit = year, count = 200\<rparr>,
     \<lparr>timeUnit = year, count = 500\<rparr>,
     \<lparr>timeUnit = year, count = 1000\<rparr>,
     \<lparr>timeUnit = year, count = 2000\<rparr>,
     \<lparr>timeUnit = year, count = 5000\<rparr>,
     \<lparr>timeUnit = year, count = 10000\<rparr>,
     \<lparr>timeUnit = year, count = 100000\<rparr>]"

section \<open>The interval selector\<close>

text \<open>
  \<^verbatim>\<open>DateAxis.chooseInterval\<close>. The catalog is a field of the axis, so it is an argument
  here. \<^verbatim>\<open>getIndex\<close> outside the list yields \<^verbatim>\<open>undefined\<close>, and reading its \<^verbatim>\<open>timeUnit\<close>
  throws a TypeError before anything else happens: that is the result \<open>None\<close>. The returned
  object is a copy of the catalog entry, which is the entry's value here. The quotient
  \<^verbatim>\<open>duration / intervalDuration\<close> is the real quotient, which is what JavaScript computes
  when the interval's duration is not zero.
\<close>

function chooseInterval :: "ITimeInterval list \<Rightarrow> nat \<Rightarrow> real \<Rightarrow> real \<Rightarrow> ITimeInterval option" where
  "chooseInterval gis index duration gridCount =
    (if length gis \<le> index then None
     else
       let gridInterval = gis ! index;
           intervalDur = getDuration (timeUnit gridInterval) (of_int (count gridInterval));
           lastIndex = length gis - 1
       in
         if index \<ge> lastIndex then Some (gis ! lastIndex)
         else
           let cnt = \<lceil>duration / intervalDur\<rceil>
           in
             if duration < intervalDur \<and> index > 0 then Some (gis ! (index - 1))
             else if of_int cnt \<le> gridCount then Some (gis ! index)
             else if index + 1 < length gis then chooseInterval gis (index + 1) duration gridCount
             else Some (gis ! index))"
  by pat_completeness auto
termination
  by (relation "measure (\<lambda>(gis, index, duration, gridCount). length gis - index)") auto

declare chooseInterval.simps [simp del]

section \<open>The axis\<close>

text \<open>
  The fields of \<^verbatim>\<open>DateAxisBreak\<close> and \<^verbatim>\<open>DateAxis\<close> that the functions below read or
  write. A field that may be \<^verbatim>\<open>undefined\<close> is an option. Private fields \<^verbatim>\<open>_x\<close> are named
  \<open>priv_x\<close>; \<^verbatim>\<open>min\<close>, \<^verbatim>\<open>max\<close>, \<^verbatim>\<open>start\<close> and \<^verbatim>\<open>end\<close> carry the prefix \<open>axis_\<close>.
  The dictionary \<^verbatim>\<open>dataItemsByAxis\<close> of a series, for this axis, is keyed by the decimal
  string of a timestamp, which is the timestamp here; a data item is its index.
\<close>

record DateAxisBreak =
  startDate :: "int option"
  endDate :: "int option"
  adjustedStartValue :: real
  adjustedEndValue :: real
  startPosition :: real
  endPosition :: real
  breakSize :: real
  gridInterval :: "ITimeInterval option"
  gridDate :: "int option"

record XYSeries =
  uid :: string
  dataItemsByAxis :: "int \<rightharpoonup> nat"

record DateAxis =
  gridIntervals :: "ITimeInterval list"
  series :: "XYSeries list"
  priv_minDifference :: "string \<rightharpoonup> real"
  priv_baseInterval :: "ITimeInterval option"
  priv_baseIntervalReal :: "ITimeInterval option"
  skipEmptyPeriods :: bool
  axis_min :: "real option"
  axis_max :: "real option"
  axis_start :: real
  axis_end :: real
  priv_minZoomed :: real
  priv_maxZoomed :: real
  priv_gridCount :: real
  priv_gridInterval :: "ITimeInterval option"
  axisBreaks :: "DateAxisBreak list"
  axisBreaks_template :: DateAxisBreak

text \<open>The getter \<^verbatim>\<open>baseInterval\<close>: the interval set by the user, else the inferred one.\<close>

definition baseInterval :: "DateAxis \<Rightarrow> ITimeInterval option" where
  "baseInterval ax =
    (case priv_baseInterval ax of Some b \<Rightarrow> Some b | None \<Rightarrow> priv_baseIntervalReal ax)"

section \<open>Base-granularity inference\<close>

text \<open>\<^verbatim>\<open>Number.MAX_VALUE\<close>, the largest finite double.\<close>

definition MAX_VALUE :: real where
  "MAX_VALUE = (2 ^ 53 - 1) * 2 ^ 971"

text \<open>
  The getter \<^verbatim>\<open>minDifference\<close>. A series without an accumulator reads \<^verbatim>\<open>undefined\<close>, and
  the comparison with it is false.
\<close>

definition minDifference :: "DateAxis \<Rightarrow> real" where
  "minDifference ax =
    (let minDiff = fold (\<lambda>s m. case priv_minDifference ax (uid s) of
                                   None \<Rightarrow> m
                                 | Some d \<Rightarrow> if m > d then d else m)
                        (series ax) MAX_VALUE
     in if minDiff = MAX_VALUE \<or> minDiff = 0 then getDuration day 1 else minDiff)"

text \<open>
  \<^verbatim>\<open>DateAxis.updateAxisBySeries\<close>: the interval chosen for one grid line over the smallest
  gap, then the corrections for short months and daylight saving, each an assignment to
  the chosen object in the order of the source.
\<close>

definition updateAxisBySeries :: "DateAxis \<Rightarrow> DateAxis option" where
  "updateAxisBySeries ax =
    (case chooseInterval (gridIntervals ax) 0 (minDifference ax) 1 of
       None \<Rightarrow> None
     | Some b0 \<Rightarrow>
        let b1 = (if minDifference ax \<ge> getDuration day 27 \<and> timeUnit b0 = week
                  then b0\<lparr>timeUnit := month, count := 1\<rparr> else b0);
            b2 = (if timeUnit b1 = month then
                    let c1 = (if minDifference ax \<ge> getDuration day (29 * 2) \<and> count b1 = 1
                              then b1\<lparr>count := 2\<rparr> else b1);
                        c2 = (if minDifference ax \<ge> getDuration day (29 * 3) \<and> count c1 = 2
                              then c1\<lparr>count := 3\<rparr> else c1);
                        c3 = (if minDifference ax \<ge> getDuration day (29 * 6) \<and> count c2 = 5
                              then c2\<lparr>count := 6\<rparr> else c2)
                    in c3
                  else b1);
            b3 = (if minDifference ax \<ge> getDuration hour 23 \<and> timeUnit b2 = hour
                  then b2\<lparr>timeUnit := day, count := 1\<rparr> else b2);
            b4 = (if minDifference ax \<ge> getDuration week 1 - getDuration hour 1 \<and> timeUnit b3 = day
                  then b3\<lparr>timeUnit := week, count := 1\<rparr> else b3);
            b5 = (if minDifference ax \<ge> getDuration year 1 - getDuration day 1.01 \<and> timeUnit b4 = month
                  then b4\<lparr>timeUnit := year, count := 1\<rparr> else b4)
        in Some (ax\<lparr>priv_baseIntervalReal := Some b5\<rparr>))"

text \<open>
  The promotions as the specification words them, with the thresholds in milliseconds:
  27, 58, 87 and 174 days, 23 hours, one week less one hour, one year less 1.01 days.
\<close>

definition spec_week_to_month :: "real \<Rightarrow> ITimeInterval \<Rightarrow> ITimeInterval" where
  "spec_week_to_month gap b =
    (if gap \<ge> 2332800000 \<and> timeUnit b = week then \<lparr>timeUnit = month, count = 1\<rparr> else b)"

definition spec_month_count :: "real \<Rightarrow> int \<Rightarrow> int \<Rightarrow> real \<Rightarrow> ITimeInterval \<Rightarrow> ITimeInterval" where
  "spec_month_count threshold fromCount toCount gap b =
    (if timeUnit b = month \<and> gap \<ge> threshold \<and> count b = fromCount
     then \<lparr>timeUnit = month, count = toCount\<rparr> else b)"

definition spec_hour_to_day :: "real \<Rightarrow> ITimeInterval \<Rightarrow> ITimeInterval" where
  "spec_hour_to_day gap b =
    (if gap \<ge> 82800000 \<and> timeUnit b = hour then \<lparr>timeUnit = day, count = 1\<rparr> else b)"

definition spec_day_to_week :: "real \<Rightarrow> ITimeInterval \<Rightarrow> ITimeInterval" where
  "spec_day_to_week gap b =
    (if gap \<ge> 601200000 \<and> timeUnit b = day then \<lparr>timeUnit = week, count = 1\<rparr> else b)"

definition spec_month_to_year :: "real \<Rightarrow> ITimeInterval \<Rightarrow> ITimeInterval" where
  "spec_month_to_year gap b =
    (if gap \<ge> 31448736000 \<and> timeUnit b = month then \<lparr>timeUnit = year, count = 1\<rparr> else b)"

definition spec_promotions :: "real \<Rightarrow> ITimeInterval \<Rightarrow> ITimeInterval" where
  "spec_promotions gap b =
    spec_month_to_year gap
      (spec_day_to_week gap
        (spec_hour_to_day gap
          (spec_month_count 15033600000 5 6 gap
            (spec_month_count 7516800000 2 3 gap
              (spec_month_count 5011200000 1 2 gap
                (spec_week_to_month gap b))))))"

text \<open>
  A break without dates, an axis as its constructor leaves it (the default catalog, no
  base interval set by the user, an inferred base interval of one day), and that axis
  with one series whose smallest gap is \<open>gap\<close>.
\<close>

definition emptyBreak :: DateAxisBreak where
  "emptyBreak = \<lparr>startDate = None, endDate = None, adjustedStartValue = 0, adjustedEndValue = 0,
     startPosition = 0, endPosition = 0, breakSize = 0, gridInterval = None, gridDate = None\<rparr>"

definition newAxis :: DateAxis where
  "newAxis = \<lparr>gridIntervals = defaultGridIntervals, series = [], priv_minDifference = Map.empty,
     priv_baseInterval = None,
     priv_baseIntervalReal = Some \<lparr>timeUnit = day, count = 1\<rparr>, skipEmptyPeriods = False,
     axis_min = None, axis_max = None, axis_start = 0, axis_end = 1,
     priv_minZoomed = 0, priv_maxZoomed = 0, priv_gridCount = 0, priv_gridInterval = None,
     axisBreaks = [], axisBreaks_template = emptyBreak\<rparr>"

definition axisWithGap :: "real \<Rightarrow> DateAxis" where
  "axisWithGap gap =
    newAxis\<lparr>series := [\<lparr>uid = ''id-1'', dataItemsByAxis = Map.empty\<rparr>],
            priv_minDifference := [''id-1'' \<mapsto> gap]\<rparr>"

section \<open>Zoom\<close>

text \<open>
  \<^verbatim>\<open>DateAxis.calculateZoom\<close>, up to the assignment of \<^verbatim>\<open>_gridInterval\<close>; what follows in
  the source (the first grid date, the index range of each series) does not write that
  field. \<^verbatim>\<open>adjustDifference\<close> belongs to \<^verbatim>\<open>ValueAxis\<close>, which is not among the sources: it
  is an argument. Without any base interval, reading \<^verbatim>\<open>baseInterval.timeUnit\<close> throws.
\<close>

definition baseDuration :: "DateAxis \<Rightarrow> real option" where
  "baseDuration ax =
    (case baseInterval ax of
       None \<Rightarrow> None
     | Some b \<Rightarrow> Some (getDuration (timeUnit b) (of_int (count b))))"

definition calculateZoom :: "(real \<Rightarrow> real \<Rightarrow> real) \<Rightarrow> DateAxis \<Rightarrow> DateAxis option" where
  "calculateZoom adjustDifference ax =
    (case chooseInterval (gridIntervals ax) 0
            (adjustDifference (priv_minZoomed ax) (priv_maxZoomed ax)) (priv_gridCount ax) of
       None \<Rightarrow> None
     | Some gi \<Rightarrow>
        (case baseDuration ax of
           None \<Rightarrow> None
         | Some bd \<Rightarrow>
            if getDuration (timeUnit gi) (of_int (count gi)) < bd
            then Some (ax\<lparr>priv_gridInterval := baseInterval ax\<rparr>)
            else Some (ax\<lparr>priv_gridInterval := Some gi\<rparr>)))"

section \<open>Calendar arithmetic\<close>

text \<open>
  \<^verbatim>\<open>$time.round\<close> and \<^verbatim>\<open>$time.add\<close> of \<^verbatim>\<open>core/utils/Time.ts\<close> are not among the sources.
  The functions of the axis take them as an argument: \<open>time_round cal d unit n\<close> is the
  date \<open>d\<close> rounded down to a boundary of \<open>n\<close> units and \<open>time_add cal d unit n\<close> is \<open>d\<close>
  moved by \<open>n\<close> units, in the axis's time zone and with its first day of the week. Both
  mutate the date they are given and return it; a date is its timestamp here.
  \<^verbatim>\<open>new Date(x)\<close> drops the fraction of a number.
\<close>

record calendar =
  time_round :: "int \<Rightarrow> TimeUnit \<Rightarrow> int \<Rightarrow> int"
  time_add :: "int \<Rightarrow> TimeUnit \<Rightarrow> int \<Rightarrow> int"

definition newDate :: "real \<Rightarrow> int" where
  "newDate x = (if 0 \<le> x then \<lfloor>x\<rfloor> else \<lceil>x\<rceil>)"

text \<open>
  Modelled from the spec: the calendar arithmetic of \<^verbatim>\<open>core/utils/Time.ts\<close> in UTC, for the
  fixed-length units from millisecond to day and a count of one, where a boundary is a
  multiple of the unit's duration since the epoch and a step is that duration. It is the
  calendar of the worked examples below.
\<close>

definition utcCalendar :: calendar where
  "utcCalendar = \<lparr>time_round = (\<lambda>d unit n. d - d mod (timeUnitDurations unit * n)),
                   time_add = (\<lambda>d unit n. d + timeUnitDurations unit * n)\<rparr>"

section \<open>The break collapser\<close>

text \<open>
  \<^verbatim>\<open>DateAxis.addEmptyUnitsBreaks\<close>. \<open>hasData\<close> is the test \<^verbatim>\<open>$iter.contains\<close> over the
  series; \<open>scanCell\<close> is the body of the loop after the date has been advanced and
  \<open>scanCells\<close> is the loop. The breaks are objects, which the loop creates and then writes
  through the reference \<^verbatim>\<open>axisBreak\<close>. The state of the scan is the list \<^verbatim>\<open>axisBreaks\<close>,
  the store of the breaks and the reference that the loop holds: the store has the breaks
  in the order of their creation, a reference is an index into the store, and the list is
  a list of references; \<open>listed\<close> reads the breaks of a list, in the order of the list.

  The class of the list, \<^verbatim>\<open>SortedListTemplate\<close>, is not among the sources.
  \<^verbatim>\<open>axisBreaks.create()\<close> makes a copy of the template of the list and inserts it where the
  list decides: that decision is the argument \<open>place\<close>, which gives, for the breaks of the
  list, the index that the new break takes. The result \<open>None\<close> of \<open>addEmptyUnitsBreaks\<close>
  means that the call does not return: the loop runs forever, or the axis has no base
  interval to read.
\<close>

definition hasData :: "DateAxis \<Rightarrow> int \<Rightarrow> bool" where
  "hasData ax startTime = list_ex (\<lambda>s. dataItemsByAxis s startTime \<noteq> None) (series ax)"

definition listed :: "nat list \<Rightarrow> DateAxisBreak list \<Rightarrow> DateAxisBreak list" where
  "listed refs store = map (\<lambda>r. store ! r) refs"

definition insertAt :: "nat \<Rightarrow> 'a \<Rightarrow> 'a list \<Rightarrow> 'a list" where
  "insertAt i v xs = take i xs @ v # drop i xs"

definition scanCell :: "(DateAxisBreak list \<Rightarrow> nat) \<Rightarrow> DateAxis \<Rightarrow> int
    \<Rightarrow> nat list \<times> DateAxisBreak list \<times> nat option
    \<Rightarrow> nat list \<times> DateAxisBreak list \<times> nat option" where
  "scanCell place ax startTime st =
    (case st of (refs, store, axisBreak) \<Rightarrow>
       if \<not> hasData ax startTime then
         (case axisBreak of
            None \<Rightarrow> (insertAt (place (listed refs store)) (length store) refs,
                      store @ [(axisBreaks_template ax)\<lparr>startDate := Some startTime\<rparr>],
                      Some (length store))
          | Some r \<Rightarrow> (refs, store, Some r))
       else
         (case axisBreak of
            Some r \<Rightarrow> (refs, store[r := (store ! r)\<lparr>endDate := Some (startTime - 1)\<rparr>], None)
          | None \<Rightarrow> (refs, store, None)))"

partial_function (option) scanCells :: "(DateAxisBreak list \<Rightarrow> nat) \<Rightarrow> (int \<Rightarrow> int) \<Rightarrow> DateAxis
    \<Rightarrow> real \<Rightarrow> int \<Rightarrow> nat list \<times> DateAxisBreak list \<times> nat option
    \<Rightarrow> (nat list \<times> DateAxisBreak list \<times> nat option) option" where
  "scanCells place step ax limit date st =
    (if of_int date < limit
     then scanCells place step ax limit (step date) (scanCell place ax (step date) st)
     else Some st)"

definition addEmptyUnitsBreaks :: "(DateAxisBreak list \<Rightarrow> nat) \<Rightarrow> calendar \<Rightarrow> DateAxis
    \<Rightarrow> DateAxis option" where
  "addEmptyUnitsBreaks place cal ax =
    (case (skipEmptyPeriods ax, axis_min ax, axis_max ax) of
       (True, Some mn, Some mx) \<Rightarrow>
         (case baseInterval ax of
            None \<Rightarrow> None
          | Some b \<Rightarrow>
             let unit = timeUnit b;
                 cnt = count b;
                 date = time_round cal (newDate mn) unit cnt
             in map_option (\<lambda>(refs, store, axisBreak). ax\<lparr>axisBreaks := listed refs store\<rparr>)
                  (scanCells place (\<lambda>d. time_add cal d unit cnt) ax
                     (mx - getDuration unit (of_int cnt)) date ([], [], None)))
     | _ \<Rightarrow> Some ax)"

text \<open>
  Modelled from the spec: the place that the list of the axis gives a new break during the
  scan; the class of the list is not among the sources. The list keeps its breaks sorted
  by start (section 3 of the spec), on the adjusted start value, which \<^verbatim>\<open>fixAxisBreaks\<close>
  assigns once the scan is over. During the scan every break of the list has the adjusted
  start value of the template, so the new break compares equal to each of them; the list
  bisects for the last break that compares equal and inserts the new break there, before
  the last break of the list.
\<close>

definition placeAmongEqual :: "DateAxisBreak list \<Rightarrow> nat" where
  "placeAmongEqual breaks = length breaks - 1"

text \<open>
  \<^verbatim>\<open>DateAxis.fixAxisBreaks\<close>, after \<^verbatim>\<open>super.fixAxisBreaks()\<close> (of \<^verbatim>\<open>ValueAxis\<close>, not among the
  sources) has set the adjusted values and positions of each break. Reading the time of a
  start date that is \<^verbatim>\<open>undefined\<close> throws. The numbers of the source are doubles and those
  of the embedding are reals; the grid count of a break is the ceiling of a product and a
  quotient of fractions, which the rounding of doubles can move past a whole number
  (\<^verbatim>\<open>Math.ceil(40 * (0.1 - 0.075))\<close> is 2), so the rounding of a real to a double is the
  argument \<open>fl\<close>, applied to the result of each operation of the function. The zoom is not
  empty: a quotient by \<^verbatim>\<open>end - start = 0\<close> is not a number in the source and is not
  modelled.
\<close>

definition fixAxisBreak :: "(real \<Rightarrow> real) \<Rightarrow> calendar \<Rightarrow> DateAxis \<Rightarrow> DateAxisBreak
    \<Rightarrow> DateAxisBreak option" where
  "fixAxisBreak fl cal ax axisBreak =
    (let breakGridCount = of_int \<lceil>fl (fl (priv_gridCount ax
               * fl (min (axis_end ax) (endPosition axisBreak)
                     - max (axis_start ax) (startPosition axisBreak)))
             / fl (axis_end ax - axis_start ax))\<rceil>
     in case chooseInterval (gridIntervals ax) 0
               (fl (adjustedEndValue axisBreak - adjustedStartValue axisBreak)) breakGridCount of
          None \<Rightarrow> None
        | Some gi \<Rightarrow>
           let rounded = time_round cal (newDate (adjustedStartValue axisBreak)) (timeUnit gi) (count gi)
           in (case startDate axisBreak of
                 None \<Rightarrow> None
               | Some sd \<Rightarrow>
                  Some (axisBreak\<lparr>gridInterval := Some gi,
                         gridDate := Some (if rounded > sd
                                           then time_add cal rounded (timeUnit gi) (count gi)
                                           else rounded)\<rparr>)))"

fun eachBreak :: "(DateAxisBreak \<Rightarrow> DateAxisBreak option) \<Rightarrow> DateAxisBreak list
    \<Rightarrow> DateAxisBreak list option" where
  "eachBreak f [] = Some []"
| "eachBreak f (b # bs) =
    (case f b of
       None \<Rightarrow> None
     | Some b' \<Rightarrow> (case eachBreak f bs of None \<Rightarrow> None | Some bs' \<Rightarrow> Some (b' # bs')))"

definition fixAxisBreaks :: "(real \<Rightarrow> real) \<Rightarrow> calendar \<Rightarrow> DateAxis \<Rightarrow> DateAxis option" where
  "fixAxisBreaks fl cal ax =
    (if length (axisBreaks ax) > 0
     then map_option (\<lambda>bs. ax\<lparr>axisBreaks := bs\<rparr>) (eachBreak (fixAxisBreak fl cal ax) (axisBreaks ax))
     else Some ax)"

section \<open>Positions and pixels\<close>

text \<open>
  \<^verbatim>\<open>AxisRendererX\<close>: the length of the axis in pixels and the maps between a position on
  the axis and a point. The record has the fields of the renderer's axis that the getter
  \<^verbatim>\<open>axisLength\<close> reads; \<^verbatim>\<open>v || 0\<close> is 0 when \<open>v\<close> is 0. The fields \<^verbatim>\<open>x\<close> and \<^verbatim>\<open>y\<close> of a point
  are named \<open>point_x\<close> and \<open>point_y\<close>. \<^verbatim>\<open>positionToPoint\<close> and \<^verbatim>\<open>pointToPosition\<close> wrap
  \<^verbatim>\<open>positionToCoordinate\<close> and \<^verbatim>\<open>coordinateToPosition\<close> of \<^verbatim>\<open>AxisRenderer\<close>, which is not among
  the sources: the two maps are arguments.
\<close>

record IPoint =
  point_x :: real
  point_y :: real

record AxisRendererX =
  measuredWidth :: real
  pixelPaddingRight :: real
  pixelPaddingLeft :: real

definition axisLength :: "AxisRendererX \<Rightarrow> real" where
  "axisLength r =
    (let v = measuredWidth r - pixelPaddingRight r - pixelPaddingLeft r
     in if v = 0 then 0 else v)"

definition positionToPoint :: "(real \<Rightarrow> real) \<Rightarrow> real \<Rightarrow> IPoint" where
  "positionToPoint positionToCoordinate position =
    \<lparr>point_x = positionToCoordinate position, point_y = 0\<rparr>"

definition pointToPosition :: "(real \<Rightarrow> 'a) \<Rightarrow> IPoint \<Rightarrow> 'a" where
  "pointToPosition coordinateToPosition point = coordinateToPosition (point_x point)"

text \<open>
  Modelled from the spec: \<^verbatim>\<open>positionToCoordinate\<close> and \<^verbatim>\<open>coordinateToPosition\<close> of
  \<^verbatim>\<open>AxisRenderer\<close>, and \<^verbatim>\<open>valueToPosition\<close> and \<^verbatim>\<open>positionToValue\<close> of \<^verbatim>\<open>ValueAxis\<close> on an axis
  without breaks; none of them is among the sources. A position maps to the pixel offset
  along the length of the axis, and back by the reciprocal computation; a value maps to
  the linear fraction \<open>(value - min) / (max - min)\<close>, and back. A quotient by zero is not a
  number: \<open>None\<close>, as is a position or a value on an axis without a minimum or a maximum.
\<close>

definition positionToCoordinate :: "AxisRendererX \<Rightarrow> real \<Rightarrow> real" where
  "positionToCoordinate r position = position * axisLength r"

definition coordinateToPosition :: "AxisRendererX \<Rightarrow> real \<Rightarrow> real option" where
  "coordinateToPosition r coordinate =
    (if axisLength r = 0 then None else Some (coordinate / axisLength r))"

definition valueToPosition :: "DateAxis \<Rightarrow> real \<Rightarrow> real option" where
  "valueToPosition ax v =
    (case (axis_min ax, axis_max ax) of
       (Some mn, Some mx) \<Rightarrow> if mx - mn = 0 then None else Some ((v - mn) / (mx - mn))
     | _ \<Rightarrow> None)"

definition positionToValue :: "DateAxis \<Rightarrow> real \<Rightarrow> real option" where
  "positionToValue ax position =
    (case (axis_min ax, axis_max ax) of
       (Some mn, Some mx) \<Rightarrow> Some (mn + position * (mx - mn))
     | _ \<Rightarrow> None)"

section \<open>The grid-date walker\<close>

text \<open>
  \<^verbatim>\<open>DateAxis.getGridDate\<close>. \<^verbatim>\<open>isInBreak\<close> (of \<^verbatim>\<open>Axis\<close>) and \<^verbatim>\<open>adjustDifference\<close> (of
  \<^verbatim>\<open>ValueAxis\<close>) are not among the sources and are arguments, as is the grid interval of
  the axis. \<^verbatim>\<open>Math.round\<close> is \<open>\<lfloor>x + 1/2\<rfloor>\<close>. The recursion need not end: \<open>None\<close> is a call that
  does not return.
\<close>

definition gridDateCandidate :: "calendar \<Rightarrow> (int \<Rightarrow> DateAxisBreak option) \<Rightarrow> ITimeInterval
    \<Rightarrow> int \<Rightarrow> int \<Rightarrow> int" where
  "gridDateCandidate cal isInBreak gi date intervalCount =
    (let unit = timeUnit gi;
         realIntervalCount = count gi;
         timestamp = time_add cal date unit intervalCount
     in case isInBreak timestamp of
          None \<Rightarrow> timestamp
        | Some axisBreak \<Rightarrow>
           (case endDate axisBreak of
              None \<Rightarrow> timestamp
            | Some e \<Rightarrow>
               let rounded = time_round cal e unit realIntervalCount
               in if rounded < e then time_add cal rounded unit realIntervalCount else rounded))"

partial_function (option) getGridDate :: "calendar \<Rightarrow> (int \<Rightarrow> DateAxisBreak option)
    \<Rightarrow> (real \<Rightarrow> real \<Rightarrow> real) \<Rightarrow> ITimeInterval \<Rightarrow> int \<Rightarrow> int \<Rightarrow> int option" where
  "getGridDate cal isInBreak adjustDifference gi date intervalCount =
    (let unit = timeUnit gi;
         realIntervalCount = count gi;
         date' = time_round cal date unit 1;
         prevTimestamp = date';
         timestamp = gridDateCandidate cal isInBreak gi date' intervalCount;
         durationBreaksRemoved = adjustDifference (of_int prevTimestamp) (of_int timestamp);
         countBreaksRemoved = \<lfloor>durationBreaksRemoved / getDuration unit 1 + 1 / 2\<rfloor>
     in if countBreaksRemoved < realIntervalCount
        then getGridDate cal isInBreak adjustDifference gi date' (intervalCount + realIntervalCount)
        else Some timestamp)"

text \<open>
  The number of units that \<^verbatim>\<open>getGridDate\<close> compares with the count of the grid interval:
  the break-adjusted duration from the rounded date \<open>prev\<close> to the candidate for
  \<open>intervalCount\<close>, in units, rounded to the nearest whole number.
\<close>

definition countBreaksRemoved :: "calendar \<Rightarrow> (int \<Rightarrow> DateAxisBreak option) \<Rightarrow> (real \<Rightarrow> real \<Rightarrow> real)
    \<Rightarrow> ITimeInterval \<Rightarrow> int \<Rightarrow> int \<Rightarrow> int" where
  "countBreaksRemoved cal inBreak adjust gi prev intervalCount =
    \<lfloor>adjust (of_int prev) (of_int (gridDateCandidate cal inBreak gi prev intervalCount))
       / getDuration (timeUnit gi) 1 + 1 / 2\<rfloor>"

text \<open>
  Modelled from the spec: \<^verbatim>\<open>isInBreak\<close> and \<^verbatim>\<open>adjustDifference\<close> over a list of breaks.
  A value is in a break when it lies between the break's adjusted start and end values;
  the break-compensated duration between two timestamps is their difference less, for
  each break, the part of the break between them that its \<^verbatim>\<open>breakSize\<close> does not keep.
\<close>

definition isInBreak :: "DateAxisBreak list \<Rightarrow> int \<Rightarrow> DateAxisBreak option" where
  "isInBreak breaks v =
    find (\<lambda>b. adjustedStartValue b \<le> of_int v \<and> of_int v \<le> adjustedEndValue b) breaks"

definition adjustDifference :: "DateAxisBreak list \<Rightarrow> real \<Rightarrow> real \<Rightarrow> real" where
  "adjustDifference breaks a b =
    fold (\<lambda>br difference.
            let lo = max (adjustedStartValue br) a; hi = min (adjustedEndValue br) b
            in if lo \<le> hi then difference - (hi - lo) * (1 - breakSize br) else difference)
         breaks (b - a)"

section \<open>Runs of empty cells\<close>

text \<open>
  For the proofs about the break collapser. The store of the scan and the reference that
  the loop holds are abstracted to the list of closed runs (start, end) and the start of
  the open run; \<open>breaksOfRuns\<close> gives the store and the reference for them, and \<open>runsOk\<close>
  is what holds of the runs once the cells of \<open>P\<close> have been scanned in ascending order:
  every run begins at an empty cell and ends before the next cell with data, the runs
  cover every empty cell, and they are in order. \<open>refsOk\<close> is what holds of the list:
  it refers to every break of the store once.
\<close>

definition runStep :: "(int \<Rightarrow> bool) \<Rightarrow> int \<Rightarrow> (int \<times> int) list \<times> int option
    \<Rightarrow> (int \<times> int) list \<times> int option" where
  "runStep h c st =
    (case st of (runs, cur) \<Rightarrow>
       if \<not> h c then (case cur of None \<Rightarrow> (runs, Some c) | Some s \<Rightarrow> (runs, Some s))
       else (case cur of Some s \<Rightarrow> (runs @ [(s, c - 1)], None) | None \<Rightarrow> (runs, None)))"

definition breaksOfRuns :: "DateAxisBreak \<Rightarrow> (int \<times> int) list \<times> int option
    \<Rightarrow> DateAxisBreak list \<times> nat option" where
  "breaksOfRuns t st =
    (case st of (runs, cur) \<Rightarrow>
       (map (\<lambda>(s, e). t\<lparr>startDate := Some s, endDate := Some e\<rparr>) runs
          @ (case cur of None \<Rightarrow> [] | Some s \<Rightarrow> [t\<lparr>startDate := Some s\<rparr>]),
        (case cur of None \<Rightarrow> None | Some s \<Rightarrow> Some (length runs))))"

definition runsOk :: "(int \<Rightarrow> bool) \<Rightarrow> int set \<Rightarrow> (int \<times> int) list \<times> int option \<Rightarrow> bool" where
  "runsOk h P st =
    (case st of (runs, cur) \<Rightarrow>
       (\<forall>(s, e)\<in>set runs. s \<in> P \<and> \<not> h s \<and> s \<le> e \<and> e + 1 \<in> P \<and> h (e + 1)
            \<and> (\<forall>c\<in>P. s \<le> c \<and> c \<le> e \<longrightarrow> \<not> h c))
       \<and> (case cur of
            None \<Rightarrow> True
          | Some s \<Rightarrow> s \<in> P \<and> \<not> h s \<and> (\<forall>c\<in>P. s \<le> c \<longrightarrow> \<not> h c)
                      \<and> (\<forall>(s', e')\<in>set runs. e' < s))
       \<and> (\<forall>c\<in>P. \<not> h c \<longrightarrow> (\<exists>(s, e)\<in>set runs. s \<le> c \<and> c \<le> e) \<or> (\<exists>s. cur = Some s \<and> s \<le> c))
       \<and> sorted_wrt (\<lambda>r r'. snd r < fst r') runs)"

definition refsOk :: "nat list \<Rightarrow> DateAxisBreak list \<Rightarrow> bool" where
  "refsOk refs store = (distinct refs \<and> set refs = {..<length store})"

text \<open>
  The step of the scan, the \<open>i\<close>-th cell after the rounded minimum, and the number \<open>k\<close> of
  cells that the loop scans: the cells 1 to \<open>k\<close>, where cell \<open>k\<close> is the first that is not
  below the maximum less one base duration.
\<close>

definition baseStep :: "calendar \<Rightarrow> ITimeInterval \<Rightarrow> int \<Rightarrow> int" where
  "baseStep cal b d = time_add cal d (timeUnit b) (count b)"

definition scannedCell :: "calendar \<Rightarrow> ITimeInterval \<Rightarrow> real \<Rightarrow> nat \<Rightarrow> int" where
  "scannedCell cal b mn i = (baseStep cal b ^^ i) (time_round cal (newDate mn) (timeUnit b) (count b))"

definition scanEnds :: "calendar \<Rightarrow> ITimeInterval \<Rightarrow> real \<Rightarrow> real \<Rightarrow> nat \<Rightarrow> bool" where
  "scanEnds cal b mn mx k =
    ((\<forall>i<k. of_int (scannedCell cal b mn i) < mx - getDuration (timeUnit b) (of_int (count b)))
     \<and> \<not> of_int (scannedCell cal b mn k) < mx - getDuration (timeUnit b) (of_int (count b)))"

section \<open>Weekdays and weekends\<close>

text \<open>
  Monday 00:00 UTC of the week \<open>w\<close> after the week of 5 January 1970, the break over the
  weekend of that week on a template \<open>t\<close>, a series with one data item at the start of
  every weekday, and two axes over it with a daily base interval and empty periods
  skipped: one from a Monday to the end of the Friday \<open>n\<close> weeks later, and one from a
  Saturday to the end of the Tuesday after it.
\<close>

definition mondayUTC :: "int \<Rightarrow> int" where
  "mondayUTC w = (7 * w + 4) * 86400000"

definition weekendBreak :: "DateAxisBreak \<Rightarrow> int \<Rightarrow> DateAxisBreak" where
  "weekendBreak t w = t\<lparr>startDate := Some (mondayUTC w + 5 * 86400000),
                          endDate := Some (mondayUTC (w + 1) - 1)\<rparr>"

definition weekdaySeries :: XYSeries where
  "weekdaySeries = \<lparr>uid = ''id-1'',
     dataItemsByAxis = (\<lambda>t. if t mod 86400000 = 0 \<and> (t div 86400000 + 3) mod 7 < 5
                              then Some (nat (t div 86400000)) else None)\<rparr>"

definition weekdayAxis :: "nat \<Rightarrow> DateAxis" where
  "weekdayAxis n = newAxis\<lparr>series := [weekdaySeries], skipEmptyPeriods := True,
     priv_baseInterval := Some \<lparr>timeUnit = day, count = 1\<rparr>,
     axis_min := Some (of_int (mondayUTC 0)),
     axis_max := Some (of_int (mondayUTC 0 + (7 * int n + 5) * 86400000))\<rparr>"

definition saturdayAxis :: DateAxis where
  "saturdayAxis = newAxis\<lparr>series := [weekdaySeries], skipEmptyPeriods := True,
     priv_baseInterval := Some \<lparr>timeUnit = day, count = 1\<rparr>,
     axis_min := Some (of_int (mondayUTC 0 + 5 * 86400000)),
     axis_max := Some (of_int (mondayUTC 1 + 2 * 86400000))\<rparr>"

section \<open>Worked examples\<close>

text \<open>An axis zoomed to one hour with six grid lines, over data sampled once a day.\<close>

definition zoomedAxis :: DateAxis where
  "zoomedAxis = newAxis\<lparr>priv_baseInterval := Some \<lparr>timeUnit = day, count = 1\<rparr>,
     priv_minZoomed := 0, priv_maxZoomed := 3600000, priv_gridCount := 6\<rparr>"

text \<open>
  A break from 06:00 on 1 January 1970 to 12:00 on the next day, collapsed to no width.
\<close>

definition halfDayBreak :: DateAxisBreak where
  "halfDayBreak = emptyBreak\<lparr>startDate := Some 21600000, endDate := Some 129600000,
     adjustedStartValue := 21600000, adjustedEndValue := 129600000, breakSize := 0\<rparr>"

text \<open>
  An axis of 32 seconds with 32 grid lines, not zoomed, and a break of 8 seconds that
  starts 4.5 seconds into it, as \<^verbatim>\<open>super.fixAxisBreaks()\<close> leaves it: the adjusted values are
  the start and the end, the positions are their fractions 9/64 and 25/64 of the axis.
\<close>

definition exampleBreak :: DateAxisBreak where
  "exampleBreak = emptyBreak\<lparr>startDate := Some 4500, endDate := Some 12500,
     adjustedStartValue := 4500, adjustedEndValue := 12500,
     startPosition := 9 / 64, endPosition := 25 / 64, breakSize := 1\<rparr>"

definition exampleBreakAxis :: DateAxis where
  "exampleBreakAxis = newAxis\<lparr>axis_min := Some 0, axis_max := Some 32000, priv_gridCount := 32,
     axisBreaks := [exampleBreak]\<rparr>"

text \<open>
  A renderer whose axis is 800 pixels wide with paddings of 10 pixels, one whose axis has
  no width left, an axis from 0 to 1000 and an axis whose minimum is its maximum.
\<close>

definition exampleRenderer :: AxisRendererX where
  "exampleRenderer = \<lparr>measuredWidth = 800, pixelPaddingRight = 10, pixelPaddingLeft = 10\<rparr>"

definition collapsedRenderer :: AxisRendererX where
  "collapsedRenderer = \<lparr>measuredWidth = 20, pixelPaddingRight = 10, pixelPaddingLeft = 10\<rparr>"

definition exampleValueAxis :: DateAxis where
  "exampleValueAxis = newAxis\<lparr>axis_min := Some 0, axis_max := Some 1000\<rparr>"

definition pointAxis :: DateAxis where
  "pointAxis = newAxis\<lparr>axis_min := Some 1000, axis_max := Some 1000\<rparr>"

section \<open>Properties of the interval selector\<close>

lemma chooseInterval_unfold:
  "index < length gis \<Longrightarrow>
   chooseInterval gis index duration gridCount =
     (if index \<ge> length gis - 1 then Some (gis ! (length gis - 1))
      else if duration < intervalDuration (gis ! index) \<and> index > 0 then Some (gis ! (index - 1))
      else if of_int \<lceil>duration / intervalDuration (gis ! index)\<rceil> \<le> gridCount then Some (gis ! index)
      else chooseInterval gis (index + 1) duration gridCount)"
  by (subst chooseInterval.simps) (auto simp: Let_def intervalDuration_def)

lemma chooseInterval_cases:
  assumes "index < length gis"
  shows "\<exists>i<length gis. chooseInterval gis index duration gridCount = Some (gis ! i) \<and>
      (of_int \<lceil>duration / intervalDuration (gis ! i)\<rceil> \<le> gridCount
       \<or> i = length gis - 1
       \<or> (i + 1 < length gis \<and> duration < intervalDuration (gis ! (i + 1))))"
  using assms
proof (induction "length gis - index" arbitrary: index)
  case 0
  then show ?case by simp
next
  case (Suc n)
  note unf = chooseInterval_unfold [OF Suc.prems, of duration gridCount]
  consider (atLast) "index \<ge> length gis - 1"
    | (stepBack) "\<not> index \<ge> length gis - 1" "duration < intervalDuration (gis ! index)" "index > 0"
    | (accept) "\<not> index \<ge> length gis - 1" "\<not> (duration < intervalDuration (gis ! index) \<and> index > 0)"
        "of_int \<lceil>duration / intervalDuration (gis ! index)\<rceil> \<le> gridCount"
    | (coarser) "\<not> index \<ge> length gis - 1" "\<not> (duration < intervalDuration (gis ! index) \<and> index > 0)"
        "\<not> of_int \<lceil>duration / intervalDuration (gis ! index)\<rceil> \<le> gridCount"
    by blast
  then show ?case
  proof cases
    case atLast
    with unf Suc.prems show ?thesis by (intro exI [of _ "length gis - 1"]) simp
  next
    case stepBack
    with unf Suc.prems show ?thesis by (intro exI [of _ "index - 1"]) simp
  next
    case accept
    with unf Suc.prems show ?thesis by (intro exI [of _ index]) auto
  next
    case coarser
    then have eq: "chooseInterval gis index duration gridCount = chooseInterval gis (index + 1) duration gridCount"
      using unf by auto
    from coarser have lt: "index + 1 < length gis" by simp
    from Suc.hyps(2) have "n = length gis - (index + 1)" by simp
    from Suc.hyps(1) [OF this lt] eq show ?thesis by simp
  qed
qed

lemma chooseInterval_total:
  "index < length gis \<Longrightarrow> \<exists>gi. chooseInterval gis index duration gridCount = Some gi"
  using chooseInterval_cases [of index gis duration gridCount] by blast

text \<open>
  Claim C9 (scenario A). Over the default catalog, a span of one hour (3600000 ms) with a
  target of 6 grid lines selects the interval of 10 minutes.
\<close>

theorem chooseInterval_scenario_A:
  "chooseInterval defaultGridIntervals 0 3600000 6 = Some \<lparr>timeUnit = minute, count = 10\<rparr>"
  by (simp add: chooseInterval.simps defaultGridIntervals_def getDuration_def)

text \<open>
  Claim C1, as amended. For a catalog of positive counts, a span \<open>D > 0\<close> and a target
  \<open>N \<ge> 1\<close>, the interval chosen from index 0 is an entry of the catalog, and the number of
  its steps across \<open>D\<close> is at most \<open>N\<close> unless the entry is the coarsest one or \<open>D\<close> is shorter
  than the entry after it, which is when the selector steps back to the finer entry.
\<close>

theorem chooseInterval_bounded_or_stepped_back:
  assumes "gis \<noteq> []" and "\<forall>g\<in>set gis. 0 < count g" and "0 < D" and "1 \<le> N"
  shows "\<exists>i<length gis. chooseInterval gis 0 D N = Some (gis ! i) \<and>
      (of_int \<lceil>D / intervalDuration (gis ! i)\<rceil> \<le> N
       \<or> i = length gis - 1
       \<or> (i + 1 < length gis \<and> D < intervalDuration (gis ! (i + 1))))"
  using assms(1) chooseInterval_cases [of 0 gis D N] by simp

theorem chooseInterval_bounded_or_stepped_back_witness:
  "defaultGridIntervals \<noteq> [] \<and> list_all (\<lambda>g. 0 < count g) defaultGridIntervals
   \<and> (\<exists>i<length defaultGridIntervals.
         chooseInterval defaultGridIntervals 0 3600000 6 = Some (defaultGridIntervals ! i) \<and>
         (of_int \<lceil>3600000 / intervalDuration (defaultGridIntervals ! i)\<rceil> \<le> (6::real)
          \<or> i = length defaultGridIntervals - 1
          \<or> (i + 1 < length defaultGridIntervals
              \<and> 3600000 < intervalDuration (defaultGridIntervals ! (i + 1)))))"
proof -
  have a: "defaultGridIntervals \<noteq> []" by (simp add: defaultGridIntervals_def)
  have b: "list_all (\<lambda>g. 0 < count g) defaultGridIntervals" by (simp add: defaultGridIntervals_def)
  then have b': "\<forall>g\<in>set defaultGridIntervals. 0 < count g" by (simp add: list_all_iff)
  have c: "(0::real) < 3600000" and d: "(1::real) \<le> 6" by simp_all
  from chooseInterval_bounded_or_stepped_back [OF a b' c d] a b show ?thesis by simp
qed

text \<open>
  The bound of claim C1 without the second exception fails: a span of 2 ms with a target of
  one grid line selects 1 ms, which is not the coarsest entry and takes two steps.
\<close>

theorem chooseInterval_boundedness_counterexample:
  "chooseInterval defaultGridIntervals 0 2 1 = Some \<lparr>timeUnit = millisecond, count = 1\<rparr>
   \<and> \<not> of_int \<lceil>2 / intervalDuration \<lparr>timeUnit = millisecond, count = 1\<rparr>\<rceil> \<le> (1::real)
   \<and> \<lparr>timeUnit = millisecond, count = 1\<rparr> \<noteq> last defaultGridIntervals"
  by (simp add: chooseInterval.simps defaultGridIntervals_def getDuration_def intervalDuration_def)

section \<open>Properties of the base-granularity inference\<close>

lemma fold_minDifference:
  "fold (\<lambda>s m. case acc (uid s) of None \<Rightarrow> m | Some d \<Rightarrow> if m > d then d else m) ss (m0::real)
     = Min (insert m0 {d. \<exists>s\<in>set ss. acc (uid s) = Some d})"
proof (induction ss arbitrary: m0)
  case Nil
  then show ?case by simp
next
  case (Cons s ss)
  have fin: "finite {d. \<exists>s\<in>set ss. acc (uid s) = Some d}"
    by (rule finite_surj [of "set ss" _ "\<lambda>s. the (acc (uid s))"]) force+
  show ?case
  proof (cases "acc (uid s)")
    case None
    then have "{d. \<exists>s\<in>set (s # ss). acc (uid s) = Some d} = {d. \<exists>s\<in>set ss. acc (uid s) = Some d}"
      by auto
    with None Cons.IH [of m0] show ?thesis by simp
  next
    case (Some d)
    then have eq: "{d. \<exists>s\<in>set (s # ss). acc (uid s) = Some d} = insert d {d. \<exists>s\<in>set ss. acc (uid s) = Some d}"
      by auto
    have "Min (insert (if m0 > d then d else m0) {d. \<exists>s\<in>set ss. acc (uid s) = Some d})
        = Min (insert m0 (insert d {d. \<exists>s\<in>set ss. acc (uid s) = Some d}))"
      using fin by (cases "{d. \<exists>s\<in>set ss. acc (uid s) = Some d} = {}") (auto simp: min_def)
    with Some eq Cons.IH [of "if m0 > d then d else m0"] show ?thesis by simp
  qed
qed

lemma MAX_VALUE_pos: "0 < MAX_VALUE"
  by (simp add: MAX_VALUE_def)

text \<open>
  Claim C10. When the smallest gap recorded for the series of the axis is 0, or when every
  accumulator still holds \<^verbatim>\<open>Number.MAX_VALUE\<close>, the getter \<^verbatim>\<open>minDifference\<close> returns the
  duration of one day.
\<close>

theorem minDifference_zero_gap_is_one_day:
  assumes "((\<exists>s\<in>set (series ax). priv_minDifference ax (uid s) = Some 0)
             \<and> (\<forall>s\<in>set (series ax). \<forall>d. priv_minDifference ax (uid s) = Some d \<longrightarrow> 0 \<le> d))
           \<or> (\<forall>s\<in>set (series ax). \<forall>d. priv_minDifference ax (uid s) = Some d \<longrightarrow> d = MAX_VALUE)"
  shows "minDifference ax = getDuration day 1 \<and> minDifference ax = 86400000"
proof -
  let ?S = "{d. \<exists>s\<in>set (series ax). priv_minDifference ax (uid s) = Some d}"
  have fin: "finite ?S"
    by (rule finite_surj [of "set (series ax)" _ "\<lambda>s. the (priv_minDifference ax (uid s))"]) force+
  from assms have "Min (insert MAX_VALUE ?S) = 0 \<or> Min (insert MAX_VALUE ?S) = MAX_VALUE"
  proof
    assume z: "(\<exists>s\<in>set (series ax). priv_minDifference ax (uid s) = Some 0)
             \<and> (\<forall>s\<in>set (series ax). \<forall>d. priv_minDifference ax (uid s) = Some d \<longrightarrow> 0 \<le> d)"
    then have "0 \<in> insert MAX_VALUE ?S" by auto
    moreover from z MAX_VALUE_pos have "\<forall>d\<in>insert MAX_VALUE ?S. 0 \<le> d" by auto
    ultimately have "Min (insert MAX_VALUE ?S) = 0"
      using fin by (intro Min_eqI) auto
    then show ?thesis ..
  next
    assume "\<forall>s\<in>set (series ax). \<forall>d. priv_minDifference ax (uid s) = Some d \<longrightarrow> d = MAX_VALUE"
    then have "insert MAX_VALUE ?S = {MAX_VALUE}" by auto
    then have "Min (insert MAX_VALUE ?S) = Min {MAX_VALUE}" by (rule arg_cong)
    then show ?thesis by simp
  qed
  then show ?thesis
    by (auto simp: minDifference_def fold_minDifference Let_def getDuration_def)
qed

theorem minDifference_zero_gap_is_one_day_witness:
  "series (axisWithGap 0) = [\<lparr>uid = ''id-1'', dataItemsByAxis = Map.empty\<rparr>]
   \<and> priv_minDifference (axisWithGap 0) ''id-1'' = Some 0
   \<and> minDifference (axisWithGap 0) = 86400000
   \<and> priv_minDifference (axisWithGap MAX_VALUE) ''id-1'' = Some MAX_VALUE
   \<and> minDifference (axisWithGap MAX_VALUE) = 86400000"
proof -
  have zero: "(\<exists>s\<in>set (series (axisWithGap 0)). priv_minDifference (axisWithGap 0) (uid s) = Some 0)
   \<and> (\<forall>s\<in>set (series (axisWithGap 0)). \<forall>d. priv_minDifference (axisWithGap 0) (uid s) = Some d \<longrightarrow> 0 \<le> d)"
    by (simp add: axisWithGap_def newAxis_def)
  have a: "minDifference (axisWithGap 0) = 86400000"
    using minDifference_zero_gap_is_one_day [of "axisWithGap 0", OF disjI1 [OF zero]] by simp
  have none: "\<forall>s\<in>set (series (axisWithGap MAX_VALUE)).
      \<forall>d. priv_minDifference (axisWithGap MAX_VALUE) (uid s) = Some d \<longrightarrow> d = MAX_VALUE"
    by (simp add: axisWithGap_def newAxis_def)
  have b: "minDifference (axisWithGap MAX_VALUE) = 86400000"
    using minDifference_zero_gap_is_one_day [of "axisWithGap MAX_VALUE", OF disjI2 [OF none]] by simp
  from a b show ?thesis by (simp add: axisWithGap_def newAxis_def)
qed

lemma step_week_to_month:
  "(if gap \<ge> getDuration day 27 \<and> timeUnit b = week then b\<lparr>timeUnit := month, count := 1\<rparr> else b)
     = spec_week_to_month gap b"
  by (cases b) (simp add: spec_week_to_month_def getDuration_def)

lemma step_month_count:
  "(if timeUnit b = month then
      let c1 = (if gap \<ge> getDuration day (29 * 2) \<and> count b = 1 then b\<lparr>count := 2\<rparr> else b);
          c2 = (if gap \<ge> getDuration day (29 * 3) \<and> count c1 = 2 then c1\<lparr>count := 3\<rparr> else c1);
          c3 = (if gap \<ge> getDuration day (29 * 6) \<and> count c2 = 5 then c2\<lparr>count := 6\<rparr> else c2)
      in c3
    else b)
     = spec_month_count 15033600000 5 6 gap
         (spec_month_count 7516800000 2 3 gap (spec_month_count 5011200000 1 2 gap b))"
  by (cases b) (simp add: spec_month_count_def getDuration_def Let_def)

lemma step_hour_to_day:
  "(if gap \<ge> getDuration hour 23 \<and> timeUnit b = hour then b\<lparr>timeUnit := day, count := 1\<rparr> else b)
     = spec_hour_to_day gap b"
  by (cases b) (simp add: spec_hour_to_day_def getDuration_def)

lemma step_day_to_week:
  "(if gap \<ge> getDuration week 1 - getDuration hour 1 \<and> timeUnit b = day
    then b\<lparr>timeUnit := week, count := 1\<rparr> else b)
     = spec_day_to_week gap b"
  by (cases b) (simp add: spec_day_to_week_def getDuration_def)

lemma step_month_to_year:
  "(if gap \<ge> getDuration year 1 - getDuration day 1.01 \<and> timeUnit b = month
    then b\<lparr>timeUnit := year, count := 1\<rparr> else b)
     = spec_month_to_year gap b"
  by (cases b) (simp add: spec_month_to_year_def getDuration_def)

text \<open>
  Claim C2. \<^verbatim>\<open>updateAxisBySeries\<close> stores the interval chosen for one grid line over the
  smallest gap, promoted by the rules of the specification in their order: week to one
  month from 27 days; for months, count 1 to 2 from 58 days, 2 to 3 from 87 days, 5 to 6
  from 174 days; hour to one day from 23 hours; day to one week from a week less an hour;
  month to one year from a year less 1.01 days. A smallest gap of 29.5 days gives one month.
\<close>

theorem updateAxisBySeries_promotions:
  "updateAxisBySeries ax =
     map_option (\<lambda>b. ax\<lparr>priv_baseIntervalReal := Some (spec_promotions (minDifference ax) b)\<rparr>)
       (chooseInterval (gridIntervals ax) 0 (minDifference ax) 1)
   \<and> updateAxisBySeries (axisWithGap 2548800000) =
       Some ((axisWithGap 2548800000)\<lparr>priv_baseIntervalReal := Some \<lparr>timeUnit = month, count = 1\<rparr>\<rparr>)"
proof
  show "updateAxisBySeries ax =
     map_option (\<lambda>b. ax\<lparr>priv_baseIntervalReal := Some (spec_promotions (minDifference ax) b)\<rparr>)
       (chooseInterval (gridIntervals ax) 0 (minDifference ax) 1)"
    unfolding updateAxisBySeries_def step_week_to_month
    unfolding Let_def [of "spec_week_to_month _ _"] step_month_count step_hour_to_day
    unfolding Let_def [of "spec_month_count _ _ _ _ _"] step_hour_to_day
    unfolding Let_def [of "spec_hour_to_day _ _"] step_day_to_week
    unfolding Let_def [of "spec_day_to_week _ _"] step_month_to_year
    by (simp add: spec_promotions_def split: option.split)
next
  have md: "minDifference (axisWithGap 2548800000) = 2548800000"
    by (simp add: minDifference_def axisWithGap_def newAxis_def MAX_VALUE_def)
  have gi: "gridIntervals (axisWithGap 2548800000) = defaultGridIntervals"
    by (simp add: axisWithGap_def newAxis_def)
  have ch: "chooseInterval defaultGridIntervals 0 2548800000 1 = Some \<lparr>timeUnit = week, count = 1\<rparr>"
    by (simp add: chooseInterval.simps defaultGridIntervals_def getDuration_def)
  show "updateAxisBySeries (axisWithGap 2548800000) =
       Some ((axisWithGap 2548800000)\<lparr>priv_baseIntervalReal := Some \<lparr>timeUnit = month, count = 1\<rparr>\<rparr>)"
    by (simp add: updateAxisBySeries_def md gi ch getDuration_def)
qed

section \<open>Properties of the zoom\<close>

lemma baseInterval_gridInterval_update:
  "baseInterval (ax\<lparr>priv_gridInterval := g\<rparr>) = baseInterval ax"
  by (simp add: baseInterval_def split: option.split)

text \<open>
  Claim C5. On an axis with a catalog and a base interval, \<^verbatim>\<open>calculateZoom\<close> returns and
  leaves a grid interval whose duration is at least the duration of the base interval:
  when the interval chosen for the zoomed span is shorter than the base interval, the
  grid interval is the base interval, and otherwise it is the chosen one.
\<close>

theorem calculateZoom_gridInterval_not_finer_than_base:
  assumes "gridIntervals ax \<noteq> []" and "baseInterval ax = Some b"
  shows "\<exists>ax' gi chosen.
      calculateZoom adjust ax = Some ax'
      \<and> chooseInterval (gridIntervals ax) 0
           (adjust (priv_minZoomed ax) (priv_maxZoomed ax)) (priv_gridCount ax) = Some chosen
      \<and> priv_gridInterval ax' = Some gi
      \<and> baseInterval ax' = Some b
      \<and> intervalDuration b \<le> intervalDuration gi
      \<and> (intervalDuration chosen < intervalDuration b \<longrightarrow> gi = b)
      \<and> (\<not> intervalDuration chosen < intervalDuration b \<longrightarrow> gi = chosen)"
proof -
  from assms(1) obtain chosen where ch: "chooseInterval (gridIntervals ax) 0
           (adjust (priv_minZoomed ax) (priv_maxZoomed ax)) (priv_gridCount ax) = Some chosen"
    using chooseInterval_total [of 0 "gridIntervals ax"] by auto
  from assms(2) have bd: "baseDuration ax = Some (intervalDuration b)"
    by (simp add: baseDuration_def intervalDuration_def)
  show ?thesis
  proof (cases "intervalDuration chosen < intervalDuration b")
    case True
    with ch bd assms(2) show ?thesis
      by (simp add: calculateZoom_def intervalDuration_def baseInterval_gridInterval_update)
  next
    case False
    with ch bd assms(2) show ?thesis
      by (simp add: calculateZoom_def intervalDuration_def baseInterval_gridInterval_update)
  qed
qed

theorem calculateZoom_gridInterval_not_finer_than_base_witness:
  "gridIntervals zoomedAxis \<noteq> [] \<and> baseInterval zoomedAxis = Some \<lparr>timeUnit = day, count = 1\<rparr>
   \<and> (\<exists>ax'. calculateZoom (\<lambda>a b. b - a) zoomedAxis = Some ax'
         \<and> chooseInterval (gridIntervals zoomedAxis) 0 3600000 6 = Some \<lparr>timeUnit = minute, count = 10\<rparr>
         \<and> priv_gridInterval ax' = Some \<lparr>timeUnit = day, count = 1\<rparr>)"
proof -
  have a: "gridIntervals zoomedAxis \<noteq> []"
    by (simp add: zoomedAxis_def newAxis_def defaultGridIntervals_def)
  have b: "baseInterval zoomedAxis = Some \<lparr>timeUnit = day, count = 1\<rparr>"
    by (simp add: zoomedAxis_def newAxis_def baseInterval_def)
  have c: "chooseInterval (gridIntervals zoomedAxis) 0 3600000 6 = Some \<lparr>timeUnit = minute, count = 10\<rparr>"
    by (simp add: zoomedAxis_def newAxis_def chooseInterval.simps defaultGridIntervals_def getDuration_def)
  have d: "intervalDuration \<lparr>timeUnit = minute, count = 10\<rparr> < intervalDuration \<lparr>timeUnit = day, count = 1\<rparr>"
    by (simp add: intervalDuration_def getDuration_def)
  have e: "priv_minZoomed zoomedAxis = 0" "priv_maxZoomed zoomedAxis = 3600000" "priv_gridCount zoomedAxis = 6"
    by (simp_all add: zoomedAxis_def newAxis_def)
  from calculateZoom_gridInterval_not_finer_than_base [OF a b, of "\<lambda>a b. b - a"] c d e a b
  show ?thesis by auto
qed

section \<open>Properties of the break collapser\<close>

lemma scanCell_breaksOfRuns:
  "snd (scanCell place ax c (refs, breaksOfRuns (axisBreaks_template ax) st))
     = breaksOfRuns (axisBreaks_template ax) (runStep (hasData ax) c st)"
proof (cases st)
  case (Pair runs cur)
  show ?thesis
  proof (cases cur)
    case None
    with Pair show ?thesis
      by (simp add: scanCell_def breaksOfRuns_def runStep_def)
  next
    case (Some s)
    with Pair show ?thesis
      by (simp add: scanCell_def breaksOfRuns_def runStep_def nth_append list_update_append)
  qed
qed

lemma set_insertAt: "set (insertAt i v xs) = insert v (set xs)"
proof -
  have "set (take i xs) \<union> set (drop i xs) = set xs"
    by (simp only: set_append [symmetric] append_take_drop_id)
  then show ?thesis unfolding insertAt_def by auto
qed

lemma distinct_insertAt:
  assumes "distinct xs" and "v \<notin> set xs"
  shows "distinct (insertAt i v xs)"
proof -
  from assms(1) have "distinct (take i xs @ drop i xs)" by (simp only: append_take_drop_id)
  then have parts: "distinct (take i xs)" "distinct (drop i xs)"
    "set (take i xs) \<inter> set (drop i xs) = {}"
    by (simp_all only: distinct_append)
  from assms(2) have fresh: "v \<notin> set (take i xs)" "v \<notin> set (drop i xs)"
    by (auto dest: in_set_takeD in_set_dropD)
  from parts fresh show ?thesis unfolding insertAt_def by simp
qed

lemma refsOk_insertAt:
  assumes "refsOk refs store"
  shows "refsOk (insertAt i (length store) refs) (store @ [b])"
proof -
  from assms have d: "distinct refs" and s: "set refs = {..<length store}"
    by (simp_all add: refsOk_def)
  from s have fresh: "length store \<notin> set refs" by simp
  have "set (insertAt i (length store) refs) = {..<length (store @ [b])}"
    by (simp only: set_insertAt s length_append_singleton lessThan_Suc)
  with distinct_insertAt [OF d fresh] show ?thesis by (simp only: refsOk_def) 
qed

lemma scanCell_refsOk:
  assumes "refsOk refs store"
  shows "refsOk (fst (scanCell place ax c (refs, store, cur)))
           (fst (snd (scanCell place ax c (refs, store, cur))))"
proof (cases cur)
  case None
  with assms refsOk_insertAt [OF assms] show ?thesis by (simp add: scanCell_def)
next
  case (Some r)
  with assms show ?thesis by (simp add: scanCell_def refsOk_def)
qed

lemma fold_scanCell_breaksOfRuns:
  assumes "refsOk refs (fst (breaksOfRuns (axisBreaks_template ax) st))"
  shows "\<exists>refs'. fold (scanCell place ax) cs (refs, breaksOfRuns (axisBreaks_template ax) st)
             = (refs', breaksOfRuns (axisBreaks_template ax) (fold (runStep (hasData ax)) cs st))
           \<and> refsOk refs' (fst (breaksOfRuns (axisBreaks_template ax)
                                    (fold (runStep (hasData ax)) cs st)))"
  using assms
proof (induction cs arbitrary: refs st)
  case Nil
  then show ?case by simp
next
  case (Cons c cs)
  let ?t = "axisBreaks_template ax"
  let ?s = "scanCell place ax c (refs, breaksOfRuns ?t st)"
  have sn: "snd ?s = breaksOfRuns ?t (runStep (hasData ax) c st)"
    by (rule scanCell_breaksOfRuns)
  have "refsOk (fst ?s) (fst (snd ?s))"
    using scanCell_refsOk [OF Cons.prems, of place ax c "snd (breaksOfRuns ?t st)"]
    by simp
  then have ok: "refsOk (fst ?s) (fst (breaksOfRuns ?t (runStep (hasData ax) c st)))"
    by (simp only: sn)
  have eq: "?s = (fst ?s, breaksOfRuns ?t (runStep (hasData ax) c st))"
    using sn by (simp add: prod_eq_iff)
  from Cons.IH [OF ok] show ?case
    by (simp only: fold_simps(2)) (subst eq, assumption)
qed

lemma runsOkI:
  assumes "\<forall>(s, e)\<in>set runs. s \<in> P \<and> \<not> h s \<and> s \<le> e \<and> e + 1 \<in> P \<and> h (e + 1)
            \<and> (\<forall>c\<in>P. s \<le> c \<and> c \<le> e \<longrightarrow> \<not> h c)"
    and "case cur of None \<Rightarrow> True
          | Some s \<Rightarrow> s \<in> P \<and> \<not> h s \<and> (\<forall>c\<in>P. s \<le> c \<longrightarrow> \<not> h c) \<and> (\<forall>(s', e')\<in>set runs. e' < s)"
    and "\<forall>c\<in>P. \<not> h c \<longrightarrow> (\<exists>(s, e)\<in>set runs. s \<le> c \<and> c \<le> e) \<or> (\<exists>s. cur = Some s \<and> s \<le> c)"
    and "sorted_wrt (\<lambda>r r'. snd r < fst r') runs"
  shows "runsOk h P (runs, cur)"
  using assms unfolding runsOk_def by simp

lemma runsOk_step:
  assumes "runsOk h P st" and "\<forall>p\<in>P. p < c"
  shows "runsOk h (insert c P) (runStep h c st)"
proof (cases st)
  case (Pair runs cur)
  from assms(1) Pair have
    cl: "\<forall>(s, e)\<in>set runs. s \<in> P \<and> \<not> h s \<and> s \<le> e \<and> e + 1 \<in> P \<and> h (e + 1)
            \<and> (\<forall>c\<in>P. s \<le> c \<and> c \<le> e \<longrightarrow> \<not> h c)"
    and op: "case cur of None \<Rightarrow> True
          | Some s \<Rightarrow> s \<in> P \<and> \<not> h s \<and> (\<forall>c\<in>P. s \<le> c \<longrightarrow> \<not> h c) \<and> (\<forall>(s', e')\<in>set runs. e' < s)"
    and cov: "\<forall>c\<in>P. \<not> h c \<longrightarrow> (\<exists>(s, e)\<in>set runs. s \<le> c \<and> c \<le> e) \<or> (\<exists>s. cur = Some s \<and> s \<le> c)"
    and srt: "sorted_wrt (\<lambda>r r'. snd r < fst r') runs"
    by (simp_all add: runsOk_def)
  have before: "\<forall>(s, e)\<in>set runs. e < c"
    using cl assms(2) by fastforce
  have cl': "\<forall>(s, e)\<in>set runs. s \<in> insert c P \<and> \<not> h s \<and> s \<le> e \<and> e + 1 \<in> insert c P \<and> h (e + 1)
            \<and> (\<forall>c'\<in>insert c P. s \<le> c' \<and> c' \<le> e \<longrightarrow> \<not> h c')"
    using cl before by fastforce
  show ?thesis
  proof (cases "h c")
    case data: True
    show ?thesis
    proof (cases cur)
      case None
      have "runsOk h (insert c P) (runs, None)"
      proof (rule runsOkI [OF cl'])
        show "case None of None \<Rightarrow> True
          | Some s \<Rightarrow> s \<in> insert c P \<and> \<not> h s \<and> (\<forall>c\<in>insert c P. s \<le> c \<longrightarrow> \<not> h c) \<and> (\<forall>(s', e')\<in>set runs. e' < s)"
          by simp
        show "\<forall>c'\<in>insert c P. \<not> h c' \<longrightarrow> (\<exists>(s, e)\<in>set runs. s \<le> c' \<and> c' \<le> e) \<or> (\<exists>s. None = Some s \<and> s \<le> c')"
          using cov None data by auto
        show "sorted_wrt (\<lambda>r r'. snd r < fst r') runs" by (rule srt)
      qed
      with Pair None data show ?thesis by (simp add: runStep_def)
    next
      case (Some s)
      with op have s: "s \<in> P" "\<not> h s" "\<forall>c\<in>P. s \<le> c \<longrightarrow> \<not> h c" "\<forall>(s', e')\<in>set runs. e' < s"
        by simp_all
      from s(1) assms(2) have sc: "s < c" by blast
      have new: "s \<in> insert c P \<and> \<not> h s \<and> s \<le> c - 1 \<and> c - 1 + 1 \<in> insert c P \<and> h (c - 1 + 1)
            \<and> (\<forall>c'\<in>insert c P. s \<le> c' \<and> c' \<le> c - 1 \<longrightarrow> \<not> h c')"
        using s sc data by auto
      have "runsOk h (insert c P) (runs @ [(s, c - 1)], None)"
      proof (rule runsOkI)
        show "\<forall>(s, e)\<in>set (runs @ [(s, c - 1)]). s \<in> insert c P \<and> \<not> h s \<and> s \<le> e \<and> e + 1 \<in> insert c P \<and> h (e + 1)
            \<and> (\<forall>c'\<in>insert c P. s \<le> c' \<and> c' \<le> e \<longrightarrow> \<not> h c')"
          using cl' new by auto
        show "case None of None \<Rightarrow> True
          | Some s0 \<Rightarrow> s0 \<in> insert c P \<and> \<not> h s0 \<and> (\<forall>c\<in>insert c P. s0 \<le> c \<longrightarrow> \<not> h c)
              \<and> (\<forall>(s', e')\<in>set (runs @ [(s, c - 1)]). e' < s0)"
          by simp
        show "\<forall>c'\<in>insert c P. \<not> h c' \<longrightarrow> (\<exists>(s, e)\<in>set (runs @ [(s, c - 1)]). s \<le> c' \<and> c' \<le> e)
            \<or> (\<exists>s. None = Some s \<and> s \<le> c')"
        proof (intro ballI impI)
          fix c' assume c': "c' \<in> insert c P" "\<not> h c'"
          with data have inP: "c' \<in> P" by auto
          with cov c' Some have "(\<exists>(s, e)\<in>set runs. s \<le> c' \<and> c' \<le> e) \<or> s \<le> c'" by auto
          moreover from inP assms(2) have "c' \<le> c - 1" by fastforce
          ultimately show "(\<exists>(s, e)\<in>set (runs @ [(s, c - 1)]). s \<le> c' \<and> c' \<le> e)
            \<or> (\<exists>s. None = Some s \<and> s \<le> c')" by auto
        qed
        show "sorted_wrt (\<lambda>r r'. snd r < fst r') (runs @ [(s, c - 1)])"
          using srt s(4) by (auto simp: sorted_wrt_append)
      qed
      with Pair Some data show ?thesis by (simp add: runStep_def)
    qed
  next
    case nodata: False
    show ?thesis
    proof (cases cur)
      case None
      have "runsOk h (insert c P) (runs, Some c)"
      proof (rule runsOkI [OF cl'])
        show "case Some c of None \<Rightarrow> True
          | Some s \<Rightarrow> s \<in> insert c P \<and> \<not> h s \<and> (\<forall>c\<in>insert c P. s \<le> c \<longrightarrow> \<not> h c) \<and> (\<forall>(s', e')\<in>set runs. e' < s)"
          using before assms(2) nodata by fastforce
        show "\<forall>c'\<in>insert c P. \<not> h c' \<longrightarrow> (\<exists>(s, e)\<in>set runs. s \<le> c' \<and> c' \<le> e) \<or> (\<exists>s. Some c = Some s \<and> s \<le> c')"
          using cov None by auto
        show "sorted_wrt (\<lambda>r r'. snd r < fst r') runs" by (rule srt)
      qed
      with Pair None nodata show ?thesis by (simp add: runStep_def)
    next
      case (Some s)
      with op have s: "s \<in> P" "\<not> h s" "\<forall>c\<in>P. s \<le> c \<longrightarrow> \<not> h c" "\<forall>(s', e')\<in>set runs. e' < s"
        by simp_all
      from s(1) assms(2) have sc: "s < c" by blast
      have "runsOk h (insert c P) (runs, Some s)"
      proof (rule runsOkI [OF cl'])
        show "case Some s of None \<Rightarrow> True
          | Some s \<Rightarrow> s \<in> insert c P \<and> \<not> h s \<and> (\<forall>c\<in>insert c P. s \<le> c \<longrightarrow> \<not> h c) \<and> (\<forall>(s', e')\<in>set runs. e' < s)"
          using s nodata by auto
        show "\<forall>c'\<in>insert c P. \<not> h c' \<longrightarrow> (\<exists>(s, e)\<in>set runs. s \<le> c' \<and> c' \<le> e) \<or> (\<exists>s'. Some s = Some s' \<and> s' \<le> c')"
          using cov Some sc by auto
        show "sorted_wrt (\<lambda>r r'. snd r < fst r') runs" by (rule srt)
      qed
      with Pair Some nodata show ?thesis by (simp add: runStep_def)
    qed
  qed
qed

lemma runsOk_fold:
  assumes "sorted_wrt (<) cs" and "\<forall>p\<in>P. \<forall>c\<in>set cs. p < c" and "runsOk h P st"
  shows "runsOk h (P \<union> set cs) (fold (runStep h) cs st)"
  using assms
proof (induction cs arbitrary: P st)
  case Nil
  then show ?case by simp
next
  case (Cons c cs)
  from Cons.prems have step: "runsOk h (insert c P) (runStep h c st)"
    by (intro runsOk_step) auto
  from Cons.prems have "sorted_wrt (<) cs" and "\<forall>p\<in>insert c P. \<forall>c'\<in>set cs. p < c'"
    by auto
  from Cons.IH [OF this step] show ?case by simp
qed

lemma runsOk_init: "runsOk h {} ([], None)"
  by (simp add: runsOk_def)

lemma scanCells_iterate:
  assumes "\<forall>i<k. of_int ((step ^^ i) d) < limit" and "\<not> of_int ((step ^^ k) d) < limit"
  shows "scanCells place step ax limit d st
           = Some (fold (scanCell place ax) (map (\<lambda>i. (step ^^ Suc i) d) [0..<k]) st)"
  using assms
proof (induction k arbitrary: d st)
  case 0
  then show ?case by (subst scanCells.simps) simp
next
  case (Suc k)
  from Suc.prems(1) have now: "of_int d < limit" by force
  have a: "\<forall>i<k. of_int ((step ^^ i) (step d)) < limit"
    using Suc.prems(1) by (auto simp: funpow_swap1 dest: spec [of _ "Suc i" for i])
  have b: "\<not> of_int ((step ^^ k) (step d)) < limit"
    using Suc.prems(2) by (simp add: funpow_swap1)
  have "map (\<lambda>i. (step ^^ Suc i) d) [0..<Suc k]
          = step d # map (\<lambda>i. (step ^^ Suc i) (step d)) [0..<k]"
    by (simp add: upt_conv_Cons map_Suc_upt [symmetric] funpow_swap1 del: upt_Suc)
  with Suc.IH [OF a b, of "scanCell place ax (step d) st"] now show ?case
    by (subst scanCells.simps) simp
qed

lemma funpow_increasing:
  assumes "\<forall>d::int. d < step d"
  shows "d + int i \<le> (step ^^ i) d"
proof (induction i)
  case 0
  then show ?case by simp
next
  case (Suc i)
  from assms have "(step ^^ i) d < step ((step ^^ i) d)" by blast
  with Suc show ?case by simp
qed

lemma funpow_strict_mono:
  assumes "\<forall>d::int. d < step d" and "i < j"
  shows "(step ^^ i) d < (step ^^ j) d"
  using assms(2)
proof (induction j)
  case 0
  then show ?case by simp
next
  case (Suc j)
  from assms(1) have st: "(step ^^ j) d < step ((step ^^ j) d)" by blast
  show ?case
  proof (cases "i = j")
    case True
    with st show ?thesis by simp
  next
    case False
    with Suc.prems have "i < j" by simp
    with Suc.IH st show ?thesis by simp
  qed
qed

lemma scan_stops:
  assumes "\<forall>d::int. d < step d"
  shows "\<exists>k. (\<forall>i<k. of_int ((step ^^ i) d) < limit) \<and> \<not> of_int ((step ^^ k) d) < (limit::real)"
proof -
  let ?n = "nat \<lceil>limit - of_int d\<rceil>"
  have "limit - of_int d \<le> of_int (int ?n)" by linarith
  moreover have "of_int (d + int ?n) \<le> (of_int ((step ^^ ?n) d) :: real)"
    using funpow_increasing [OF assms, of d ?n] by (simp only: of_int_le_iff)
  ultimately have ex: "\<not> of_int ((step ^^ ?n) d) < limit" by simp
  let ?k = "LEAST k. \<not> of_int ((step ^^ k) d) < limit"
  from ex have "\<not> of_int ((step ^^ ?k) d) < limit" by (rule LeastI)
  moreover have "\<forall>i<?k. of_int ((step ^^ i) d) < limit"
    using not_less_Least by blast
  ultimately show ?thesis by blast
qed

lemma cells_set:
  "set (map (\<lambda>i. (step ^^ Suc i) d) [0..<k]) = {(step ^^ i) d | i. 1 \<le> i \<and> i \<le> k}"
proof -
  have "{(step ^^ i) d | i. 1 \<le> i \<and> i \<le> k} = (\<lambda>i. (step ^^ Suc i) d) ` {0..<k}"
  proof (intro set_eqI iffI)
    fix x assume "x \<in> {(step ^^ i) d | i. 1 \<le> i \<and> i \<le> k}"
    then obtain i where i: "x = (step ^^ i) d" "1 \<le> i" "i \<le> k" by blast
    then have "x = (step ^^ Suc (i - 1)) d" "i - 1 \<in> {0..<k}" by auto
    then show "x \<in> (\<lambda>i. (step ^^ Suc i) d) ` {0..<k}" by blast
  next
    fix x assume "x \<in> (\<lambda>i. (step ^^ Suc i) d) ` {0..<k}"
    then obtain i where "x = (step ^^ Suc i) d" "i < k" by auto
    then have "x = (step ^^ Suc i) d \<and> 1 \<le> Suc i \<and> Suc i \<le> k" by simp
    then show "x \<in> {(step ^^ i) d | i. 1 \<le> i \<and> i \<le> k}" by blast
  qed
  then show ?thesis by simp
qed

lemma cells_sorted:
  assumes "\<forall>d::int. d < step d"
  shows "sorted_wrt (<) (map (\<lambda>i. (step ^^ Suc i) d) [0..<k])"
proof -
  have "sorted_wrt (\<lambda>i j. (step ^^ Suc i) d < (step ^^ Suc j) d) [0..<k]"
    by (rule sorted_wrt_mono_rel [of _ "(<)"])
       (use funpow_strict_mono [OF assms] in \<open>auto simp del: funpow.simps\<close>)
  then show ?thesis by (simp only: sorted_wrt_map)
qed

lemma addEmptyUnitsBreaks_enabled:
  assumes "skipEmptyPeriods ax" and "axis_min ax = Some mn" and "axis_max ax = Some mx"
    and "baseInterval ax = Some b"
  shows "addEmptyUnitsBreaks place cal ax
     = map_option (\<lambda>(refs, store, axisBreak). ax\<lparr>axisBreaks := listed refs store\<rparr>)
         (scanCells place (\<lambda>d. time_add cal d (timeUnit b) (count b)) ax
            (mx - getDuration (timeUnit b) (of_int (count b)))
            (time_round cal (newDate mn) (timeUnit b) (count b)) ([], [], None))"
  using assms by (simp add: addEmptyUnitsBreaks_def Let_def)

lemma addEmptyUnitsBreaks_fold:
  assumes "skipEmptyPeriods ax" and "axis_min ax = Some mn" and "axis_max ax = Some mx"
    and "baseInterval ax = Some b"
    and k: "\<forall>i<k. of_int (((\<lambda>d. time_add cal d (timeUnit b) (count b)) ^^ i)
                        (time_round cal (newDate mn) (timeUnit b) (count b)))
                < mx - getDuration (timeUnit b) (of_int (count b))"
      "\<not> of_int (((\<lambda>d. time_add cal d (timeUnit b) (count b)) ^^ k)
                        (time_round cal (newDate mn) (timeUnit b) (count b)))
                < mx - getDuration (timeUnit b) (of_int (count b))"
    and st: "st = fold (runStep (hasData ax))
                   (map (\<lambda>i. ((\<lambda>d. time_add cal d (timeUnit b) (count b)) ^^ Suc i)
                              (time_round cal (newDate mn) (timeUnit b) (count b))) [0..<k])
                   ([], None)"
  shows "\<exists>refs. addEmptyUnitsBreaks place cal ax
            = Some (ax\<lparr>axisBreaks := listed refs (fst (breaksOfRuns (axisBreaks_template ax) st))\<rparr>)
          \<and> refsOk refs (fst (breaksOfRuns (axisBreaks_template ax) st))"
proof -
  let ?step = "\<lambda>d. time_add cal d (timeUnit b) (count b)"
  let ?d0 = "time_round cal (newDate mn) (timeUnit b) (count b)"
  let ?limit = "mx - getDuration (timeUnit b) (of_int (count b))"
  let ?cs = "map (\<lambda>i. (?step ^^ Suc i) ?d0) [0..<k]"
  let ?t = "axisBreaks_template ax"
  have init: "([], [], None) = ([], breaksOfRuns ?t ([], None))"
    by (simp add: breaksOfRuns_def)
  have ok0: "refsOk [] (fst (breaksOfRuns ?t ([], None)))"
    by (simp add: breaksOfRuns_def refsOk_def)
  from fold_scanCell_breaksOfRuns [OF ok0, of place ?cs]
  obtain refs where f: "fold (scanCell place ax) ?cs ([], breaksOfRuns ?t ([], None))
        = (refs, breaksOfRuns ?t st)"
    and ok: "refsOk refs (fst (breaksOfRuns ?t st))"
    unfolding st by blast
  have "scanCells place ?step ax ?limit ?d0 ([], [], None) = Some (refs, breaksOfRuns ?t st)"
    by (subst scanCells_iterate [OF k], subst init) (simp only: f)
  then have "addEmptyUnitsBreaks place cal ax
      = Some (ax\<lparr>axisBreaks := listed refs (fst (breaksOfRuns ?t st))\<rparr>)"
    unfolding addEmptyUnitsBreaks_enabled [OF assms(1-4)]
    by (simp add: case_prod_unfold)
  with ok show ?thesis by blast
qed

lemma addEmptyUnitsBreaks_runs:
  assumes "skipEmptyPeriods ax" and "axis_min ax = Some mn" and "axis_max ax = Some mx"
    and "baseInterval ax = Some b"
    and inc: "\<forall>d. d < time_add cal d (timeUnit b) (count b)"
  shows "\<exists>k st refs.
      (\<forall>i<k. of_int (((\<lambda>d. time_add cal d (timeUnit b) (count b)) ^^ i)
                        (time_round cal (newDate mn) (timeUnit b) (count b)))
                < mx - getDuration (timeUnit b) (of_int (count b)))
      \<and> \<not> of_int (((\<lambda>d. time_add cal d (timeUnit b) (count b)) ^^ k)
                        (time_round cal (newDate mn) (timeUnit b) (count b)))
                < mx - getDuration (timeUnit b) (of_int (count b))
      \<and> addEmptyUnitsBreaks place cal ax
          = Some (ax\<lparr>axisBreaks := listed refs (fst (breaksOfRuns (axisBreaks_template ax) st))\<rparr>)
      \<and> refsOk refs (fst (breaksOfRuns (axisBreaks_template ax) st))
      \<and> runsOk (hasData ax)
           {((\<lambda>d. time_add cal d (timeUnit b) (count b)) ^^ i)
              (time_round cal (newDate mn) (timeUnit b) (count b)) | i. 1 \<le> i \<and> i \<le> k} st"
proof -
  let ?step = "\<lambda>d. time_add cal d (timeUnit b) (count b)"
  let ?d0 = "time_round cal (newDate mn) (timeUnit b) (count b)"
  let ?limit = "mx - getDuration (timeUnit b) (of_int (count b))"
  from scan_stops [OF inc, of ?d0 ?limit] obtain k where
    k: "\<forall>i<k. of_int ((?step ^^ i) ?d0) < ?limit" "\<not> of_int ((?step ^^ k) ?d0) < ?limit"
    by blast
  let ?cs = "map (\<lambda>i. (?step ^^ Suc i) ?d0) [0..<k]"
  let ?st = "fold (runStep (hasData ax)) ?cs ([], None)"
  from addEmptyUnitsBreaks_fold [OF assms(1-4) k refl, of place]
  obtain refs where res: "addEmptyUnitsBreaks place cal ax
      = Some (ax\<lparr>axisBreaks := listed refs (fst (breaksOfRuns (axisBreaks_template ax) ?st))\<rparr>)"
    and ok: "refsOk refs (fst (breaksOfRuns (axisBreaks_template ax) ?st))"
    by blast
  have "runsOk (hasData ax) ({} \<union> set ?cs) ?st"
    by (rule runsOk_fold [OF cells_sorted [OF inc] _ runsOk_init]) simp
  then have "runsOk (hasData ax) {(?step ^^ i) ?d0 | i. 1 \<le> i \<and> i \<le> k} ?st"
    by (simp only: cells_set Un_empty_left)
  with k res ok show ?thesis by blast
qed

lemma addEmptyUnitsBreaks_cells:
  assumes "skipEmptyPeriods ax" and "axis_min ax = Some mn" and "axis_max ax = Some mx"
    and "baseInterval ax = Some b" and "\<forall>d. d < baseStep cal b d"
  shows "\<exists>k st refs. scanEnds cal b mn mx k
      \<and> addEmptyUnitsBreaks place cal ax
          = Some (ax\<lparr>axisBreaks := listed refs (fst (breaksOfRuns (axisBreaks_template ax) st))\<rparr>)
      \<and> refsOk refs (fst (breaksOfRuns (axisBreaks_template ax) st))
      \<and> runsOk (hasData ax) (scannedCell cal b mn ` {1..k}) st"
proof -
  from assms(5) have inc: "\<forall>d. d < time_add cal d (timeUnit b) (count b)"
    by (simp add: baseStep_def)
  have fn: "baseStep cal b = (\<lambda>d. time_add cal d (timeUnit b) (count b))"
    by (rule ext) (simp add: baseStep_def)
  have img: "scannedCell cal b mn ` {1..k}
      = {((\<lambda>d. time_add cal d (timeUnit b) (count b)) ^^ i)
              (time_round cal (newDate mn) (timeUnit b) (count b)) | i. 1 \<le> i \<and> i \<le> k}" for k
    by (auto simp: scannedCell_def fn)
  from addEmptyUnitsBreaks_runs [OF assms(1-4) inc, of place] show ?thesis
    unfolding scanEnds_def img unfolding scannedCell_def fn by blast
qed

lemma listed_set:
  assumes "refsOk refs store"
  shows "set (listed refs store) = set store"
proof -
  from assms have s: "set refs = {..<length store}" by (simp add: refsOk_def)
  have "set (listed refs store) = (\<lambda>r. store ! r) ` set refs"
    by (simp add: listed_def)
  also have "\<dots> = (\<lambda>r. store ! r) ` {..<length store}" by (simp only: s)
  also have "\<dots> = set store"
    by (simp only: set_conv_nth lessThan_def image_Collect)
  finally show ?thesis .
qed

lemma listed_length:
  assumes "refsOk refs store"
  shows "length (listed refs store) = length store"
proof -
  from assms have d: "distinct refs" and s: "set refs = {..<length store}"
    by (simp_all add: refsOk_def)
  from distinct_card [OF d] have "length refs = card {..<length store}" by (simp only: s)
  then have "length refs = length store" by simp
  then show ?thesis by (simp add: listed_def)
qed



lemma breaksOfRuns_set:
  "set (fst (breaksOfRuns t (runs, cur)))
     = (\<lambda>(s, e). t\<lparr>startDate := Some s, endDate := Some e\<rparr>) ` set runs
       \<union> (case cur of None \<Rightarrow> {} | Some s \<Rightarrow> {t\<lparr>startDate := Some s\<rparr>})"
  by (cases cur) (simp_all add: breaksOfRuns_def)




lemma newDate_of_int: "newDate (of_int x) = x"
  by (simp add: newDate_def)

lemma mondayUTC_mod: "mondayUTC w mod 86400000 = 0"
  by (simp add: mondayUTC_def)

lemma upt7: "[a..<a + 7] = [a, a + 1, a + 2, a + 3, a + 4, a + 5, a + 6]"
proof -
  have l: "[0..<7] = [0, 1, 2, 3, 4, 5, 6::nat]" by code_simp
  have "[a..<7 + a] = map (\<lambda>i. i + a) [0..<7]" by (rule map_add_upt [symmetric])
  also have "\<dots> = [0 + a, 1 + a, 2 + a, 3 + a, 4 + a, 5 + a, 6 + a]"
    by (simp only: l list.map)
  finally show ?thesis by (simp add: add.commute)
qed

lemma upt4: "[0..<4] = [0, 1, 2, 3::nat]"
  by code_simp

lemma weekend_runs:
  fixes mon D :: int
  assumes hd: "\<forall>k. 0 \<le> k \<and> k \<le> 7 * int n + 4 \<longrightarrow> h (mon + k * D) = (k mod 7 < 5)"
    and m: "m \<le> n"
  shows "fold (runStep h) (map (\<lambda>i. mon + (int i + 1) * D) [0..<7 * m + 4]) ([], None)
     = (map (\<lambda>j. (mon + (7 * int j + 5) * D, mon + (7 * int j + 7) * D - 1)) [0..<m], None)"
  using m
proof (induction m)
  case 0
  have c: "h (mon + (int 0 + 1) * D)" "h (mon + (int 1 + 1) * D)" "h (mon + (int 2 + 1) * D)"
    "h (mon + (int 3 + 1) * D)"
    using hd [rule_format, of 1] hd [rule_format, of 2] hd [rule_format, of 3]
      hd [rule_format, of 4]
    by simp_all
  have "[0..<7 * 0 + 4] = [0, 1, 2, 3::nat]" using upt4 by simp
  then show ?case using c by (simp add: runStep_def)
next
  case (Suc m)
  then have m: "m \<le> n" and mn: "int m < int n" by simp_all
  let ?a = "7 * m + 4"
  let ?runs = "map (\<lambda>j. (mon + (7 * int j + 5) * D, mon + (7 * int j + 7) * D - 1)) [0..<m]"
  have sp: "[0..<7 * Suc m + 4] = [0..<?a] @ [?a, ?a + 1, ?a + 2, ?a + 3, ?a + 4, ?a + 5, ?a + 6]"
  proof -
    have "7 * Suc m + 4 = ?a + 7" by simp
    then have "[0..<7 * Suc m + 4] = [0..<?a + 7]" by (rule arg_cong)
    also have "\<dots> = [0..<?a] @ [?a..<?a + 7]" by (rule upt_add_eq_append) simp
    finally show ?thesis by (simp only: upt7)
  qed
  have k: "int ?a + 1 = 7 * int m + 5" "int (?a + 1) + 1 = 7 * int m + 6"
    "int (?a + 2) + 1 = 7 * int m + 7" "int (?a + 3) + 1 = 7 * int m + 8"
    "int (?a + 4) + 1 = 7 * int m + 9" "int (?a + 5) + 1 = 7 * int m + 10"
    "int (?a + 6) + 1 = 7 * int m + 11"
    by simp_all
  have md: "(7 * int m + 5) mod 7 = 5" "(7 * int m + 6) mod 7 = 6" "(7 * int m + 7) mod 7 = 0"
    "(7 * int m + 8) mod 7 = 1" "(7 * int m + 9) mod 7 = 2" "(7 * int m + 10) mod 7 = 3"
    "(7 * int m + 11) mod 7 = 4"
    by presburger+
  have c: "\<not> h (mon + (7 * int m + 5) * D)" "\<not> h (mon + (7 * int m + 6) * D)"
    "h (mon + (7 * int m + 7) * D)" "h (mon + (7 * int m + 8) * D)"
    "h (mon + (7 * int m + 9) * D)" "h (mon + (7 * int m + 10) * D)"
    "h (mon + (7 * int m + 11) * D)"
    using hd [rule_format, of "7 * int m + 5"] hd [rule_format, of "7 * int m + 6"]
      hd [rule_format, of "7 * int m + 7"] hd [rule_format, of "7 * int m + 8"]
      hd [rule_format, of "7 * int m + 9"] hd [rule_format, of "7 * int m + 10"]
      hd [rule_format, of "7 * int m + 11"] mn
    by (simp_all only: md) simp_all
  have week: "fold (runStep h)
      (map (\<lambda>i. mon + (int i + 1) * D) [?a, ?a + 1, ?a + 2, ?a + 3, ?a + 4, ?a + 5, ?a + 6])
      (?runs, None)
    = (?runs @ [(mon + (7 * int m + 5) * D, mon + (7 * int m + 7) * D - 1)], None)"
    unfolding list.map k using c by (simp only: fold_simps runStep_def) simp
  have "fold (runStep h) (map (\<lambda>i. mon + (int i + 1) * D) [0..<7 * Suc m + 4]) ([], None)
      = (?runs @ [(mon + (7 * int m + 5) * D, mon + (7 * int m + 7) * D - 1)], None)"
    unfolding sp map_append fold_append comp_def Suc.IH [OF m] by (rule week)
  then show ?case by simp
qed

lemma funpow_add_const: "((\<lambda>d::int. d + D) ^^ i) d0 = d0 + int i * D"
  by (induction i) (simp_all add: algebra_simps)

lemma weekend_scenario:
  assumes "skipEmptyPeriods ax" and "baseInterval ax = Some \<lparr>timeUnit = day, count = 1\<rparr>"
    and "axis_min ax = Some (of_int (mondayUTC w))"
    and "axis_max ax = Some (of_int (mondayUTC w + (7 * int n + 5) * 86400000))"
    and hd: "\<forall>k. 0 \<le> k \<and> k \<le> 7 * int n + 4 \<longrightarrow>
               hasData ax (mondayUTC w + k * 86400000) = (k mod 7 < 5)"
  shows "\<exists>refs. addEmptyUnitsBreaks place utcCalendar ax
       = Some (ax\<lparr>axisBreaks := listed refs
                  (map (\<lambda>j. weekendBreak (axisBreaks_template ax) (w + int j)) [0..<n])\<rparr>)
     \<and> refsOk refs (map (\<lambda>j. weekendBreak (axisBreaks_template ax) (w + int j)) [0..<n])"
proof -
  define D :: int where "D = 86400000"
  let ?mon = "mondayUTC w"
  let ?b = "\<lparr>timeUnit = day, count = 1\<rparr>"
  let ?step = "\<lambda>d. time_add utcCalendar d (timeUnit ?b) (count ?b)"
  let ?d0 = "time_round utcCalendar (newDate (of_int ?mon)) (timeUnit ?b) (count ?b)"
  let ?limit = "of_int (?mon + (7 * int n + 5) * 86400000) - getDuration (timeUnit ?b) (of_int (count ?b))"
  let ?t = "axisBreaks_template ax"
  have Dpos: "0 < D" by (simp add: D_def)
  have step: "?step = (\<lambda>d. d + D)"
    by (simp add: utcCalendar_def D_def)
  have d0: "?d0 = ?mon"
    by (simp add: utcCalendar_def newDate_of_int mondayUTC_mod)
  have lim: "?limit = (of_int (?mon + (7 * int n + 4) * D) :: real)"
    by (simp add: getDuration_def D_def algebra_simps)
  have k1: "\<forall>i<7 * n + 4. of_int ((?step ^^ i) ?d0) < ?limit"
  proof (intro allI impI)
    fix i assume "i < 7 * n + 4"
    then have "int i < 7 * int n + 4" by simp
    then have "int i * D < (7 * int n + 4) * D" using Dpos by (rule mult_strict_right_mono)
    then have "?mon + int i * D < ?mon + (7 * int n + 4) * D" by simp
    then show "of_int ((?step ^^ i) ?d0) < ?limit"
      unfolding step d0 lim funpow_add_const by (simp only: of_int_less_iff)
  qed
  have "int (7 * n + 4) = 7 * int n + 4" by simp
  then have k2: "\<not> of_int ((?step ^^ (7 * n + 4)) ?d0) < ?limit"
    unfolding step d0 lim funpow_add_const by (simp only: of_int_less_iff)
  have hd': "\<forall>k. 0 \<le> k \<and> k \<le> 7 * int n + 4 \<longrightarrow> hasData ax (?mon + k * D) = (k mod 7 < 5)"
    using hd by (simp only: D_def)
  have cells: "map (\<lambda>i. (?step ^^ Suc i) ?d0) [0..<7 * n + 4]
      = map (\<lambda>i. ?mon + (int i + 1) * D) [0..<7 * n + 4]"
    unfolding step d0 funpow_add_const by (simp add: algebra_simps)
  have st: "fold (runStep (hasData ax)) (map (\<lambda>i. (?step ^^ Suc i) ?d0) [0..<7 * n + 4]) ([], None)
      = (map (\<lambda>j. (?mon + (7 * int j + 5) * D, ?mon + (7 * int j + 7) * D - 1)) [0..<n], None)"
    unfolding cells by (rule weekend_runs [OF hd' order_refl])
  have bs: "fst (breaksOfRuns ?t
        (map (\<lambda>j. (?mon + (7 * int j + 5) * D, ?mon + (7 * int j + 7) * D - 1)) [0..<n], None))
      = map (\<lambda>j. weekendBreak ?t (w + int j)) [0..<n]"
    by (simp add: breaksOfRuns_def weekendBreak_def mondayUTC_def D_def algebra_simps)
  from addEmptyUnitsBreaks_fold [OF assms(1,3,4,2) k1 k2 refl, of place]
  show ?thesis unfolding st bs .
qed


lemma runsOk_breaks_are_empty_runs:
  assumes ok: "runsOk h P (runs, cur)" and t: "endDate t = None"
    and br: "br \<in> set (fst (breaksOfRuns t (runs, cur)))"
  shows "\<exists>s. startDate br = Some s \<and> s \<in> P \<and> \<not> h s
      \<and> (case endDate br of
            Some e \<Rightarrow> e + 1 \<in> P \<and> h (e + 1) \<and> (\<forall>c\<in>P. s \<le> c \<and> c \<le> e \<longrightarrow> \<not> h c)
          | None \<Rightarrow> (\<forall>c\<in>P. s \<le> c \<longrightarrow> \<not> h c))"
proof -
  from br consider (run) s e where "(s, e) \<in> set runs" "br = t\<lparr>startDate := Some s, endDate := Some e\<rparr>"
    | (opened) s where "cur = Some s" "br = t\<lparr>startDate := Some s\<rparr>"
    by (auto simp: breaksOfRuns_set split: option.splits)
  then show ?thesis
  proof cases
    case run
    from ok run(1) have "s \<in> P \<and> \<not> h s \<and> e + 1 \<in> P \<and> h (e + 1) \<and> (\<forall>c\<in>P. s \<le> c \<and> c \<le> e \<longrightarrow> \<not> h c)"
      unfolding runsOk_def by fastforce
    with run(2) show ?thesis by simp
  next
    case opened
    from ok opened(1) have "s \<in> P \<and> \<not> h s \<and> (\<forall>c\<in>P. s \<le> c \<longrightarrow> \<not> h c)"
      unfolding runsOk_def by simp
    with opened(2) t show ?thesis by simp
  qed
qed

lemma runsOk_empty_cells_covered:
  assumes ok: "runsOk h P (runs, cur)" and t: "endDate t = None" and c: "c \<in> P" "\<not> h c"
  shows "\<exists>br\<in>set (fst (breaksOfRuns t (runs, cur))). \<exists>s. startDate br = Some s \<and> s \<le> c
      \<and> (case endDate br of None \<Rightarrow> True | Some e \<Rightarrow> c \<le> e)"
proof -
  from ok c have "(\<exists>(s, e)\<in>set runs. s \<le> c \<and> c \<le> e) \<or> (\<exists>s. cur = Some s \<and> s \<le> c)"
    unfolding runsOk_def by simp
  then show ?thesis
  proof
    assume "\<exists>(s, e)\<in>set runs. s \<le> c \<and> c \<le> e"
    then obtain s e where se: "(s, e) \<in> set runs" "s \<le> c" "c \<le> e" by auto
    then have "t\<lparr>startDate := Some s, endDate := Some e\<rparr> \<in> set (fst (breaksOfRuns t (runs, cur)))"
      by (force simp: breaksOfRuns_set)
    with se(2,3) show ?thesis by force
  next
    assume "\<exists>s. cur = Some s \<and> s \<le> c"
    then obtain s where s: "cur = Some s" "s \<le> c" by blast
    then have "t\<lparr>startDate := Some s\<rparr> \<in> set (fst (breaksOfRuns t (runs, cur)))"
      by (simp add: breaksOfRuns_set)
    with s(2) t show ?thesis by force
  qed
qed

lemma addEmptyUnitsBreaks_disabled:
  "\<not> skipEmptyPeriods ax \<or> axis_min ax = None \<or> axis_max ax = None \<Longrightarrow>
   addEmptyUnitsBreaks place cal ax = Some ax"
  by (auto simp: addEmptyUnitsBreaks_def split: option.splits bool.splits)

lemma hasData_weekdayAxis:
  "hasData (weekdayAxis n) (mondayUTC 0 + k * 86400000) = (k mod 7 < 5)"
proof -
  have a: "(345600000 + k * 86400000) mod 86400000 = (0::int)" by simp
  have b: "(345600000 + k * 86400000) div 86400000 = k + 4" by simp
  have c: "(k + 4 + 3) mod 7 = k mod 7" by presburger
  show ?thesis
    by (simp add: hasData_def weekdayAxis_def newAxis_def weekdaySeries_def mondayUTC_def a b c)
qed

lemma weekdayAxis_fields:
  "skipEmptyPeriods (weekdayAxis n)"
  "baseInterval (weekdayAxis n) = Some \<lparr>timeUnit = day, count = 1\<rparr>"
  "axis_min (weekdayAxis n) = Some (of_int (mondayUTC 0))"
  "axis_max (weekdayAxis n) = Some (of_int (mondayUTC 0 + (7 * int n + 5) * 86400000))"
  "axisBreaks_template (weekdayAxis n) = emptyBreak"
  by (simp_all add: weekdayAxis_def newAxis_def baseInterval_def)

lemma utcCalendar_day_advances: "\<forall>d. d < baseStep utcCalendar \<lparr>timeUnit = day, count = 1\<rparr> d"
  by (simp add: baseStep_def utcCalendar_def)

lemma weekendBreak_inj: "weekendBreak t v = weekendBreak t w \<Longrightarrow> v = w"
proof -
  assume "weekendBreak t v = weekendBreak t w"
  then have "startDate (weekendBreak t v) = startDate (weekendBreak t w)" by (rule arg_cong)
  then show ?thesis by (simp add: weekendBreak_def mondayUTC_def)
qed

lemma listed_distinct:
  assumes "refsOk refs store" and "distinct store"
  shows "distinct (listed refs store)"
proof -
  from assms(1) have d: "distinct refs" and s: "\<forall>r\<in>set refs. r < length store"
    by (simp_all add: refsOk_def)
  from assms(2) s have "inj_on (\<lambda>r. store ! r) (set refs)" by (rule inj_on_nth)
  with d show ?thesis by (simp add: listed_def distinct_map)
qed

lemma weekends_distinct: "distinct (map (\<lambda>j. weekendBreak t (w + int j)) [0..<n])"
proof -
  have "inj_on (\<lambda>j. weekendBreak t (w + int j)) (set [0..<n])"
    by (rule inj_onI) (auto dest: weekendBreak_inj)
  then show ?thesis by (simp add: distinct_map)
qed

text \<open>
  Claim C3, as amended. With empty periods skipped, numeric bounds, a base interval, a
  template without an end date and a calendar whose step moves forward,
  \<^verbatim>\<open>addEmptyUnitsBreaks\<close> returns, whatever place the list gives a new break, having
  scanned the cells 1 to \<open>k\<close> after the cell of the rounded minimum; every break starts at
  a scanned cell without data and, when closed, ends one millisecond before the first
  later scanned cell with data, every cell up to there being empty; a break left open has
  only empty cells after its start; and every scanned cell without data lies in a break.
  Otherwise the axis is untouched. For data on every weekday and none on weekends, with a
  daily base interval in UTC from a Monday to the end of a Friday \<open>n\<close> weeks later, the
  breaks of the list are the \<open>n\<close> weekends, each once and each from Saturday 00:00 to
  Monday 00:00 less one millisecond.
\<close>

theorem addEmptyUnitsBreaks_collapses_scanned_cells:
  "(skipEmptyPeriods ax \<and> axis_min ax = Some mn \<and> axis_max ax = Some mx \<and> baseInterval ax = Some b
      \<and> endDate (axisBreaks_template ax) = None \<and> (\<forall>d. d < baseStep cal b d)
    \<longrightarrow> (\<exists>ax' k. addEmptyUnitsBreaks place cal ax = Some ax' \<and> scanEnds cal b mn mx k
          \<and> (\<forall>br\<in>set (axisBreaks ax'). \<exists>s. startDate br = Some s
                \<and> s \<in> scannedCell cal b mn ` {1..k} \<and> \<not> hasData ax s
                \<and> (case endDate br of
                      Some e \<Rightarrow> e + 1 \<in> scannedCell cal b mn ` {1..k} \<and> hasData ax (e + 1)
                                 \<and> (\<forall>c\<in>scannedCell cal b mn ` {1..k}. s \<le> c \<and> c \<le> e \<longrightarrow> \<not> hasData ax c)
                    | None \<Rightarrow> (\<forall>c\<in>scannedCell cal b mn ` {1..k}. s \<le> c \<longrightarrow> \<not> hasData ax c)))
          \<and> (\<forall>c\<in>scannedCell cal b mn ` {1..k}. \<not> hasData ax c \<longrightarrow>
                (\<exists>br\<in>set (axisBreaks ax'). \<exists>s. startDate br = Some s \<and> s \<le> c
                    \<and> (case endDate br of None \<Rightarrow> True | Some e \<Rightarrow> c \<le> e)))))
   \<and> (\<not> skipEmptyPeriods ax \<or> axis_min ax = None \<or> axis_max ax = None
        \<longrightarrow> addEmptyUnitsBreaks place cal ax = Some ax)
   \<and> (skipEmptyPeriods ax \<and> baseInterval ax = Some \<lparr>timeUnit = day, count = 1\<rparr>
        \<and> axis_min ax = Some (of_int (mondayUTC w))
        \<and> axis_max ax = Some (of_int (mondayUTC w + (7 * int n + 5) * 86400000))
        \<and> (\<forall>k. 0 \<le> k \<and> k \<le> 7 * int n + 4 \<longrightarrow>
              hasData ax (mondayUTC w + k * 86400000) = (k mod 7 < 5))
    \<longrightarrow> (\<exists>ax'. addEmptyUnitsBreaks place utcCalendar ax = Some ax'
          \<and> ax' = ax\<lparr>axisBreaks := axisBreaks ax'\<rparr>
          \<and> distinct (axisBreaks ax') \<and> length (axisBreaks ax') = n
          \<and> set (axisBreaks ax')
              = (\<lambda>j. weekendBreak (axisBreaks_template ax) (w + int j)) ` {0..<n}))"
proof (intro conjI impI)
  assume a: "skipEmptyPeriods ax \<and> axis_min ax = Some mn \<and> axis_max ax = Some mx \<and> baseInterval ax = Some b
      \<and> endDate (axisBreaks_template ax) = None \<and> (\<forall>d. d < baseStep cal b d)"
  then have t: "endDate (axisBreaks_template ax) = None" by simp
  from a addEmptyUnitsBreaks_cells [of ax mn mx b cal place]
  obtain k runs cur refs where k: "scanEnds cal b mn mx k"
    and res: "addEmptyUnitsBreaks place cal ax
          = Some (ax\<lparr>axisBreaks := listed refs (fst (breaksOfRuns (axisBreaks_template ax) (runs, cur)))\<rparr>)"
    and refs: "refsOk refs (fst (breaksOfRuns (axisBreaks_template ax) (runs, cur)))"
    and ok: "runsOk (hasData ax) (scannedCell cal b mn ` {1..k}) (runs, cur)"
    by auto
  let ?ax' = "ax\<lparr>axisBreaks := listed refs (fst (breaksOfRuns (axisBreaks_template ax) (runs, cur)))\<rparr>"
  have bs: "set (axisBreaks ?ax') = set (fst (breaksOfRuns (axisBreaks_template ax) (runs, cur)))"
    by (simp add: listed_set [OF refs])
  have p1: "\<forall>br\<in>set (axisBreaks ?ax'). \<exists>s. startDate br = Some s
                \<and> s \<in> scannedCell cal b mn ` {1..k} \<and> \<not> hasData ax s
                \<and> (case endDate br of
                      Some e \<Rightarrow> e + 1 \<in> scannedCell cal b mn ` {1..k} \<and> hasData ax (e + 1)
                                 \<and> (\<forall>c\<in>scannedCell cal b mn ` {1..k}. s \<le> c \<and> c \<le> e \<longrightarrow> \<not> hasData ax c)
                    | None \<Rightarrow> (\<forall>c\<in>scannedCell cal b mn ` {1..k}. s \<le> c \<longrightarrow> \<not> hasData ax c))"
    unfolding bs using runsOk_breaks_are_empty_runs [OF ok t] by blast
  have p2: "\<forall>c\<in>scannedCell cal b mn ` {1..k}. \<not> hasData ax c \<longrightarrow>
                (\<exists>br\<in>set (axisBreaks ?ax'). \<exists>s. startDate br = Some s \<and> s \<le> c
                    \<and> (case endDate br of None \<Rightarrow> True | Some e \<Rightarrow> c \<le> e))"
    unfolding bs using runsOk_empty_cells_covered [OF ok t] by blast
  from res k p1 p2
  show "\<exists>ax' k. addEmptyUnitsBreaks place cal ax = Some ax' \<and> scanEnds cal b mn mx k
          \<and> (\<forall>br\<in>set (axisBreaks ax'). \<exists>s. startDate br = Some s
                \<and> s \<in> scannedCell cal b mn ` {1..k} \<and> \<not> hasData ax s
                \<and> (case endDate br of
                      Some e \<Rightarrow> e + 1 \<in> scannedCell cal b mn ` {1..k} \<and> hasData ax (e + 1)
                                 \<and> (\<forall>c\<in>scannedCell cal b mn ` {1..k}. s \<le> c \<and> c \<le> e \<longrightarrow> \<not> hasData ax c)
                    | None \<Rightarrow> (\<forall>c\<in>scannedCell cal b mn ` {1..k}. s \<le> c \<longrightarrow> \<not> hasData ax c)))
          \<and> (\<forall>c\<in>scannedCell cal b mn ` {1..k}. \<not> hasData ax c \<longrightarrow>
                (\<exists>br\<in>set (axisBreaks ax'). \<exists>s. startDate br = Some s \<and> s \<le> c
                    \<and> (case endDate br of None \<Rightarrow> True | Some e \<Rightarrow> c \<le> e)))"
    by blast
next
  assume "\<not> skipEmptyPeriods ax \<or> axis_min ax = None \<or> axis_max ax = None"
  then show "addEmptyUnitsBreaks place cal ax = Some ax" by (rule addEmptyUnitsBreaks_disabled)
next
  assume a: "skipEmptyPeriods ax \<and> baseInterval ax = Some \<lparr>timeUnit = day, count = 1\<rparr>
        \<and> axis_min ax = Some (of_int (mondayUTC w))
        \<and> axis_max ax = Some (of_int (mondayUTC w + (7 * int n + 5) * 86400000))
        \<and> (\<forall>k. 0 \<le> k \<and> k \<le> 7 * int n + 4 \<longrightarrow>
              hasData ax (mondayUTC w + k * 86400000) = (k mod 7 < 5))"
  let ?ws = "map (\<lambda>j. weekendBreak (axisBreaks_template ax) (w + int j)) [0..<n]"
  from a weekend_scenario [of ax w n place]
  obtain refs where res: "addEmptyUnitsBreaks place utcCalendar ax
       = Some (ax\<lparr>axisBreaks := listed refs ?ws\<rparr>)"
    and refs: "refsOk refs ?ws"
    by blast
  let ?ax' = "ax\<lparr>axisBreaks := listed refs ?ws\<rparr>"
  have bs: "axisBreaks ?ax' = listed refs ?ws" by simp
  have p1: "?ax' = ax\<lparr>axisBreaks := axisBreaks ?ax'\<rparr>" by simp
  have p2: "distinct (axisBreaks ?ax')"
    unfolding bs by (rule listed_distinct [OF refs weekends_distinct])
  have p3: "length (axisBreaks ?ax') = n"
    unfolding bs by (simp add: listed_length [OF refs])
  have p4: "set (axisBreaks ?ax')
      = (\<lambda>j. weekendBreak (axisBreaks_template ax) (w + int j)) ` {0..<n}"
    unfolding bs by (simp add: listed_set [OF refs])
  from res p1 p2 p3 p4
  show "\<exists>ax'. addEmptyUnitsBreaks place utcCalendar ax = Some ax'
          \<and> ax' = ax\<lparr>axisBreaks := axisBreaks ax'\<rparr>
          \<and> distinct (axisBreaks ax') \<and> length (axisBreaks ax') = n
          \<and> set (axisBreaks ax')
              = (\<lambda>j. weekendBreak (axisBreaks_template ax) (w + int j)) ` {0..<n}"
    by (intro exI [of _ ?ax'] conjI)
qed

theorem addEmptyUnitsBreaks_collapses_scanned_cells_witness:
  "skipEmptyPeriods (weekdayAxis 1)
   \<and> baseInterval (weekdayAxis 1) = Some \<lparr>timeUnit = day, count = 1\<rparr>
   \<and> hasData (weekdayAxis 1) 691200000 \<and> \<not> hasData (weekdayAxis 1) 777600000
   \<and> \<not> hasData (weekdayAxis 1) 864000000 \<and> hasData (weekdayAxis 1) 950400000
   \<and> (\<exists>ax' k. addEmptyUnitsBreaks placeAmongEqual utcCalendar (weekdayAxis 1) = Some ax'
         \<and> scanEnds utcCalendar \<lparr>timeUnit = day, count = 1\<rparr> 345600000 1382400000 k)
   \<and> addEmptyUnitsBreaks placeAmongEqual utcCalendar (weekdayAxis 1)
       = Some ((weekdayAxis 1)\<lparr>axisBreaks :=
                 [emptyBreak\<lparr>startDate := Some 777600000, endDate := Some 950399999\<rparr>]\<rparr>)"
proof -
  note inst = addEmptyUnitsBreaks_collapses_scanned_cells
    [where ax = "weekdayAxis 1" and cal = utcCalendar and w = 0 and n = 1
       and mn = "of_int (mondayUTC 0)" and mx = "of_int (mondayUTC 0 + (7 * int 1 + 5) * 86400000)"
       and b = "\<lparr>timeUnit = day, count = 1\<rparr>" and place = placeAmongEqual]
  have t: "endDate (axisBreaks_template (weekdayAxis 1)) = None"
    by (simp add: weekdayAxis_fields emptyBreak_def)
  have hd: "\<forall>k. 0 \<le> k \<and> k \<le> 7 * int 1 + 4 \<longrightarrow>
      hasData (weekdayAxis 1) (mondayUTC 0 + k * 86400000) = (k mod 7 < 5)"
    by (simp add: hasData_weekdayAxis)
  from inst [THEN conjunct1, rule_format] weekdayAxis_fields [of 1] t utcCalendar_day_advances
  have general: "\<exists>ax' k. addEmptyUnitsBreaks placeAmongEqual utcCalendar (weekdayAxis 1) = Some ax'
         \<and> scanEnds utcCalendar \<lparr>timeUnit = day, count = 1\<rparr> (of_int (mondayUTC 0))
              (of_int (mondayUTC 0 + (7 * int 1 + 5) * 86400000)) k"
    by blast
  from inst [THEN conjunct2, THEN conjunct2, rule_format] weekdayAxis_fields [of 1] hd
  obtain ax' where r: "addEmptyUnitsBreaks placeAmongEqual utcCalendar (weekdayAxis 1) = Some ax'"
    and rest: "ax' = (weekdayAxis 1)\<lparr>axisBreaks := axisBreaks ax'\<rparr>"
    and len: "length (axisBreaks ax') = 1"
    and st: "set (axisBreaks ax')
        = (\<lambda>j. weekendBreak (axisBreaks_template (weekdayAxis 1)) (0 + int j)) ` {0..<1}"
    by blast
  from len obtain br where br: "axisBreaks ax' = [br]"
    by (cases "axisBreaks ax'") auto
  with st have "br = weekendBreak emptyBreak 0"
    by (simp add: weekdayAxis_fields)
  with br rest have "ax' = (weekdayAxis 1)\<lparr>axisBreaks := [weekendBreak emptyBreak 0]\<rparr>"
    by simp
  with r have scenario: "addEmptyUnitsBreaks placeAmongEqual utcCalendar (weekdayAxis 1)
      = Some ((weekdayAxis 1)\<lparr>axisBreaks := [weekendBreak emptyBreak 0]\<rparr>)"
    by simp
  have cells: "hasData (weekdayAxis 1) 691200000 \<and> \<not> hasData (weekdayAxis 1) 777600000
   \<and> \<not> hasData (weekdayAxis 1) 864000000 \<and> hasData (weekdayAxis 1) 950400000"
    using hasData_weekdayAxis [of 1 4] hasData_weekdayAxis [of 1 5]
      hasData_weekdayAxis [of 1 6] hasData_weekdayAxis [of 1 7]
    by (simp add: mondayUTC_def)
  from general scenario cells weekdayAxis_fields [of 1] show ?thesis
    by (simp add: weekendBreak_def mondayUTC_def)
qed

text \<open>
  Claim C3 as stated fails at the cell of the rounded minimum, which the loop steps past
  before its first test. On the axis that begins on a Saturday, the rounded minimum is that
  Saturday 00:00, a cell without data, and the one break of the weekend opens on Sunday
  00:00: the Saturday lies in no break.
\<close>

theorem addEmptyUnitsBreaks_first_cell_counterexample:
  "axis_min saturdayAxis = Some 777600000
   \<and> time_round utcCalendar (newDate 777600000) day 1 = 777600000
   \<and> \<not> hasData saturdayAxis 777600000
   \<and> addEmptyUnitsBreaks placeAmongEqual utcCalendar saturdayAxis
       = Some (saturdayAxis\<lparr>axisBreaks :=
            [emptyBreak\<lparr>startDate := Some 864000000, endDate := Some 950399999\<rparr>]\<rparr>)"
proof -
  have "addEmptyUnitsBreaks placeAmongEqual utcCalendar saturdayAxis
       = Some (saturdayAxis\<lparr>axisBreaks :=
            [emptyBreak\<lparr>startDate := Some 864000000, endDate := Some 950399999\<rparr>]\<rparr>)"
    by (simp add: addEmptyUnitsBreaks_def saturdayAxis_def newAxis_def baseInterval_def
        utcCalendar_def newDate_def mondayUTC_def getDuration_def scanCells.simps scanCell_def
        hasData_def weekdaySeries_def listed_def insertAt_def placeAmongEqual_def)
  moreover have "axis_min saturdayAxis = Some 777600000"
    by (simp add: saturdayAxis_def mondayUTC_def)
  moreover have "time_round utcCalendar (newDate 777600000) day 1 = 777600000"
    by (simp add: utcCalendar_def newDate_def)
  moreover have "\<not> hasData saturdayAxis 777600000"
    by (simp add: hasData_def saturdayAxis_def weekdaySeries_def)
  ultimately show ?thesis by (intro conjI)
qed




section \<open>Properties of the grid inside a break\<close>

lemma fixAxisBreak_step_not_taken:
  assumes "fixAxisBreak fl cal ax axisBreak = Some axisBreak'"
    and "startDate axisBreak = Some sd"
    and "\<forall>d unit n. time_round cal d unit n \<le> d"
    and "newDate (adjustedStartValue axisBreak) \<le> sd"
  shows "\<exists>gi. gridInterval axisBreak' = Some gi
      \<and> gridDate axisBreak'
          = Some (time_round cal (newDate (adjustedStartValue axisBreak)) (timeUnit gi) (count gi))"
proof -
  from assms(1,2) obtain gi where
    r: "axisBreak' = axisBreak\<lparr>gridInterval := Some gi,
          gridDate := Some (if time_round cal (newDate (adjustedStartValue axisBreak)) (timeUnit gi) (count gi) > sd
                            then time_add cal (time_round cal (newDate (adjustedStartValue axisBreak))
                                   (timeUnit gi) (count gi)) (timeUnit gi) (count gi)
                            else time_round cal (newDate (adjustedStartValue axisBreak)) (timeUnit gi) (count gi))\<rparr>"
    by (auto simp: fixAxisBreak_def Let_def split: option.splits)
  from assms(3) have "time_round cal (newDate (adjustedStartValue axisBreak)) (timeUnit gi) (count gi)
      \<le> newDate (adjustedStartValue axisBreak)"
    by blast
  with assms(4) have "\<not> time_round cal (newDate (adjustedStartValue axisBreak)) (timeUnit gi) (count gi) > sd"
    by simp
  with r show ?thesis by simp
qed

text \<open>
  Claim C8, at the failing input. The break of the example starts at 4.5 s; its grid
  interval is one second (32 grid lines times its quarter of the axis gives 8, and 8
  seconds take 8 steps of a second; every intermediate value is a whole number or a
  multiple of 1/64 and so a double: the rounding is the identity), the rounding of its
  adjusted start lands at 4 s, before the start of the break, and \<^verbatim>\<open>fixAxisBreaks\<close> leaves
  the grid date there, where the claim has it moved one step forward, to 5 s.
\<close>

theorem fixAxisBreaks_grid_date_before_start:
  "fixAxisBreaks (\<lambda>v. v) utcCalendar exampleBreakAxis
     = Some (exampleBreakAxis\<lparr>axisBreaks :=
         [exampleBreak\<lparr>gridInterval := Some \<lparr>timeUnit = second, count = 1\<rparr>, gridDate := Some 4000\<rparr>]\<rparr>)
   \<and> startDate exampleBreak = Some 4500
   \<and> time_round utcCalendar (newDate (adjustedStartValue exampleBreak)) second 1 = 4000
   \<and> time_add utcCalendar 4000 second 1 = 5000"
proof -
  have c1: "chooseInterval defaultGridIntervals 0 8000 8 = Some \<lparr>timeUnit = second, count = 1\<rparr>"
    by (simp add: chooseInterval.simps defaultGridIntervals_def getDuration_def)
  have f1: "fixAxisBreak (\<lambda>v. v) utcCalendar exampleBreakAxis exampleBreak
      = Some (exampleBreak\<lparr>gridInterval := Some \<lparr>timeUnit = second, count = 1\<rparr>, gridDate := Some 4000\<rparr>)"
    by (simp add: fixAxisBreak_def exampleBreakAxis_def exampleBreak_def newAxis_def emptyBreak_def
          c1 utcCalendar_def newDate_def)
  have bs: "axisBreaks exampleBreakAxis = [exampleBreak]"
    by (simp add: exampleBreakAxis_def)
  have r: "fixAxisBreaks (\<lambda>v. v) utcCalendar exampleBreakAxis
     = Some (exampleBreakAxis\<lparr>axisBreaks :=
         [exampleBreak\<lparr>gridInterval := Some \<lparr>timeUnit = second, count = 1\<rparr>, gridDate := Some 4000\<rparr>]\<rparr>)"
    by (simp add: fixAxisBreaks_def bs f1)
  have "startDate exampleBreak = Some 4500"
    "time_round utcCalendar (newDate (adjustedStartValue exampleBreak)) second 1 = 4000"
    "time_add utcCalendar 4000 second 1 = 5000"
    by (simp_all add: exampleBreak_def utcCalendar_def newDate_def)
  with r show ?thesis by (intro conjI)
qed

section \<open>Properties of the grid-date walker\<close>

lemma getGridDate_unfold:
  "getGridDate cal inBreak adjust gi date intervalCount =
    (if countBreaksRemoved cal inBreak adjust gi (time_round cal date (timeUnit gi) 1) intervalCount < count gi
     then getGridDate cal inBreak adjust gi (time_round cal date (timeUnit gi) 1) (intervalCount + count gi)
     else Some (gridDateCandidate cal inBreak gi (time_round cal date (timeUnit gi) 1) intervalCount))"
  by (subst getGridDate.simps) (simp add: Let_def countBreaksRemoved_def)

lemma getGridDate_iterate:
  assumes idem: "\<forall>d. time_round cal (time_round cal d (timeUnit gi) 1) (timeUnit gi) 1
                   = time_round cal d (timeUnit gi) 1"
    and fails: "\<forall>i<m. countBreaksRemoved cal inBreak adjust gi (time_round cal date (timeUnit gi) 1)
                        (n + int i * count gi) < count gi"
    and passes: "\<not> countBreaksRemoved cal inBreak adjust gi (time_round cal date (timeUnit gi) 1)
                        (n + int m * count gi) < count gi"
  shows "getGridDate cal inBreak adjust gi date n
       = Some (gridDateCandidate cal inBreak gi (time_round cal date (timeUnit gi) 1) (n + int m * count gi))"
  using fails passes
proof (induction m arbitrary: date n)
  case 0
  then show ?case by (subst getGridDate_unfold) simp
next
  case (Suc m)
  let ?d = "time_round cal date (timeUnit gi) 1"
  from Suc.prems(1) [rule_format, of 0] have now: "countBreaksRemoved cal inBreak adjust gi ?d n < count gi"
    by simp
  have rd: "time_round cal ?d (timeUnit gi) 1 = ?d" using idem by blast
  have shift: "n + count gi + int i * count gi = n + int (Suc i) * count gi" for i
    by (simp add: algebra_simps)
  have a: "\<forall>i<m. countBreaksRemoved cal inBreak adjust gi (time_round cal ?d (timeUnit gi) 1)
                        (n + count gi + int i * count gi) < count gi"
    unfolding rd shift using Suc.prems(1) by auto
  have b: "\<not> countBreaksRemoved cal inBreak adjust gi (time_round cal ?d (timeUnit gi) 1)
                        (n + count gi + int m * count gi) < count gi"
    unfolding rd shift using Suc.prems(2) .
  from Suc.IH [OF a b] now show ?case
    by (subst getGridDate_unfold) (simp only: if_True rd shift)
qed

lemma getGridDate_Some:
  assumes idem: "\<forall>d. time_round cal (time_round cal d (timeUnit gi) 1) (timeUnit gi) 1
                   = time_round cal d (timeUnit gi) 1"
    and res: "getGridDate cal inBreak adjust gi date n = Some d"
  shows "\<exists>m. (\<forall>i<m. countBreaksRemoved cal inBreak adjust gi (time_round cal date (timeUnit gi) 1)
                        (n + int i * count gi) < count gi)
      \<and> \<not> countBreaksRemoved cal inBreak adjust gi (time_round cal date (timeUnit gi) 1)
                        (n + int m * count gi) < count gi
      \<and> d = gridDateCandidate cal inBreak gi (time_round cal date (timeUnit gi) 1) (n + int m * count gi)"
proof -
  let ?P = "\<lambda>cal inBreak adjust gi date n d.
    (\<forall>d. time_round cal (time_round cal d (timeUnit gi) 1) (timeUnit gi) 1
                   = time_round cal d (timeUnit gi) 1) \<longrightarrow>
    (\<exists>m. (\<forall>i<m. countBreaksRemoved cal inBreak adjust gi (time_round cal date (timeUnit gi) 1)
                        (n + int i * count gi) < count gi)
      \<and> \<not> countBreaksRemoved cal inBreak adjust gi (time_round cal date (timeUnit gi) 1)
                        (n + int m * count gi) < count gi
      \<and> d = gridDateCandidate cal inBreak gi (time_round cal date (timeUnit gi) 1) (n + int m * count gi))"
  have "?P cal inBreak adjust gi date n d"
  proof (rule getGridDate.raw_induct [where P = ?P, OF _ res])
    fix rec cal inBreak adjust gi date n d
    assume IH: "\<And>cal inBreak adjust gi date n y. rec cal inBreak adjust gi date n = Some y
                  \<Longrightarrow> ?P cal inBreak adjust gi date n y"
      and body: "(let unit = timeUnit gi; realIntervalCount = count gi;
          date' = time_round cal date unit 1; prevTimestamp = date';
          timestamp = gridDateCandidate cal inBreak gi date' n;
          durationBreaksRemoved = adjust (real_of_int prevTimestamp) (real_of_int timestamp);
          countBreaksRemoved = \<lfloor>durationBreaksRemoved / getDuration unit 1 + 1 / 2\<rfloor>
      in if countBreaksRemoved < realIntervalCount
         then rec cal inBreak adjust gi date' (n + realIntervalCount)
         else Some timestamp) = Some d"
    show "?P cal inBreak adjust gi date n d"
    proof
      assume idem: "\<forall>d. time_round cal (time_round cal d (timeUnit gi) 1) (timeUnit gi) 1
                   = time_round cal d (timeUnit gi) 1"
      let ?d = "time_round cal date (timeUnit gi) 1"
      have rd: "time_round cal ?d (timeUnit gi) 1 = ?d" using idem by blast
      show "\<exists>m. (\<forall>i<m. countBreaksRemoved cal inBreak adjust gi ?d (n + int i * count gi) < count gi)
        \<and> \<not> countBreaksRemoved cal inBreak adjust gi ?d (n + int m * count gi) < count gi
        \<and> d = gridDateCandidate cal inBreak gi ?d (n + int m * count gi)"
      proof (cases "countBreaksRemoved cal inBreak adjust gi ?d n < count gi")
        case False
        with body have "d = gridDateCandidate cal inBreak gi ?d n"
          by (simp add: Let_def countBreaksRemoved_def)
        with False show ?thesis by (intro exI [of _ 0]) simp
      next
        case True
        with body have "rec cal inBreak adjust gi ?d (n + count gi) = Some d"
          by (simp add: Let_def countBreaksRemoved_def)
        from IH [OF this, THEN mp, OF idem, unfolded rd] obtain m where
          m: "\<forall>i<m. countBreaksRemoved cal inBreak adjust gi ?d (n + count gi + int i * count gi) < count gi"
            "\<not> countBreaksRemoved cal inBreak adjust gi ?d (n + count gi + int m * count gi) < count gi"
            "d = gridDateCandidate cal inBreak gi ?d (n + count gi + int m * count gi)"
          by blast
        have shift: "n + count gi + int i * count gi = n + int (Suc i) * count gi" for i
          by (simp add: algebra_simps)
        have "\<forall>i<Suc m. countBreaksRemoved cal inBreak adjust gi ?d (n + int i * count gi) < count gi"
        proof (intro allI impI)
          fix i assume "i < Suc m"
          show "countBreaksRemoved cal inBreak adjust gi ?d (n + int i * count gi) < count gi"
          proof (cases i)
            case 0
            with True show ?thesis by simp
          next
            case (Suc i')
            with \<open>i < Suc m\<close> m(1) have "countBreaksRemoved cal inBreak adjust gi ?d
                (n + count gi + int i' * count gi) < count gi" by simp
            with Suc show ?thesis unfolding shift by simp
          qed
        qed
        with m(2,3) show ?thesis unfolding shift by (intro exI [of _ "Suc m"]) blast
      qed
    qed
  qed
  with idem show ?thesis by blast
qed

lemma timeUnitDurations_pos: "0 < timeUnitDurations unit"
  by (cases unit) simp_all

lemma utcCalendar_round_idem:
  "\<forall>d. time_round utcCalendar (time_round utcCalendar d unit 1) unit 1 = time_round utcCalendar d unit 1"
  by (simp add: utcCalendar_def minus_mod_eq_mult_div)

lemma getGridDate_halfDayBreak:
  "getGridDate utcCalendar (isInBreak [halfDayBreak]) (adjustDifference [halfDayBreak])
     \<lparr>timeUnit = day, count = 1\<rparr> 100 1 = Some 172800000"
  by (simp add: getGridDate.simps gridDateCandidate_def utcCalendar_def isInBreak_def
        adjustDifference_def halfDayBreak_def emptyBreak_def getDuration_def)

text \<open>
  Claim C4, as amended. For a calendar whose rounding to the unit is idempotent,
  \<^verbatim>\<open>getGridDate\<close> returns exactly when, stepping the interval count by the count of the grid
  interval, some candidate date lies at least that count of units past the rounded date,
  the break-adjusted duration being counted in units rounded to the nearest whole number;
  it returns the first such candidate. The returned date is therefore at least the count
  less one half of the units past the rounded date, break durations removed.
\<close>

theorem getGridDate_elapsed_units_rounded:
  assumes "\<forall>d. time_round cal (time_round cal d (timeUnit gi) 1) (timeUnit gi) 1
                   = time_round cal d (timeUnit gi) 1"
    and "prev = time_round cal date (timeUnit gi) 1"
  shows "(getGridDate cal inBreak adjust gi date n = Some d \<longleftrightarrow>
           (\<exists>m. (\<forall>i<m. countBreaksRemoved cal inBreak adjust gi prev (n + int i * count gi) < count gi)
              \<and> \<not> countBreaksRemoved cal inBreak adjust gi prev (n + int m * count gi) < count gi
              \<and> d = gridDateCandidate cal inBreak gi prev (n + int m * count gi)))
       \<and> (getGridDate cal inBreak adjust gi date n = Some d \<longrightarrow>
            count gi \<le> \<lfloor>adjust (of_int prev) (of_int d) / getDuration (timeUnit gi) 1 + 1 / 2\<rfloor>
            \<and> (of_int (count gi) - 1 / 2) * getDuration (timeUnit gi) 1 \<le> adjust (of_int prev) (of_int d))"
proof (intro conjI iffI impI)
  assume "getGridDate cal inBreak adjust gi date n = Some d"
  from getGridDate_Some [OF assms(1) this]
  show "\<exists>m. (\<forall>i<m. countBreaksRemoved cal inBreak adjust gi prev (n + int i * count gi) < count gi)
              \<and> \<not> countBreaksRemoved cal inBreak adjust gi prev (n + int m * count gi) < count gi
              \<and> d = gridDateCandidate cal inBreak gi prev (n + int m * count gi)"
    unfolding assms(2) .
next
  assume "\<exists>m. (\<forall>i<m. countBreaksRemoved cal inBreak adjust gi prev (n + int i * count gi) < count gi)
              \<and> \<not> countBreaksRemoved cal inBreak adjust gi prev (n + int m * count gi) < count gi
              \<and> d = gridDateCandidate cal inBreak gi prev (n + int m * count gi)"
  then obtain m where
    m: "\<forall>i<m. countBreaksRemoved cal inBreak adjust gi prev (n + int i * count gi) < count gi"
       "\<not> countBreaksRemoved cal inBreak adjust gi prev (n + int m * count gi) < count gi"
       "d = gridDateCandidate cal inBreak gi prev (n + int m * count gi)"
    by blast
  from getGridDate_iterate [OF assms(1) m(1,2) [unfolded assms(2)]] m(3)
  show "getGridDate cal inBreak adjust gi date n = Some d"
    unfolding assms(2) by simp
next
  assume res: "getGridDate cal inBreak adjust gi date n = Some d"
  from getGridDate_Some [OF assms(1) this] obtain m where
    "\<not> countBreaksRemoved cal inBreak adjust gi prev (n + int m * count gi) < count gi"
    "d = gridDateCandidate cal inBreak gi prev (n + int m * count gi)"
    unfolding assms(2) by blast
  then show "count gi \<le> \<lfloor>adjust (of_int prev) (of_int d) / getDuration (timeUnit gi) 1 + 1 / 2\<rfloor>"
    by (simp add: countBreaksRemoved_def)
next
  assume res: "getGridDate cal inBreak adjust gi date n = Some d"
  from getGridDate_Some [OF assms(1) this] obtain m where
    "\<not> countBreaksRemoved cal inBreak adjust gi prev (n + int m * count gi) < count gi"
    "d = gridDateCandidate cal inBreak gi prev (n + int m * count gi)"
    unfolding assms(2) by blast
  then have le: "count gi \<le> \<lfloor>adjust (of_int prev) (of_int d) / getDuration (timeUnit gi) 1 + 1 / 2\<rfloor>"
    by (simp add: countBreaksRemoved_def)
  have pos: "0 < getDuration (timeUnit gi) 1"
    by (simp add: getDuration_def timeUnitDurations_pos)
  from le have "of_int (count gi) \<le> adjust (of_int prev) (of_int d) / getDuration (timeUnit gi) 1 + 1 / 2"
    by (simp add: le_floor_iff)
  then have "of_int (count gi) - 1 / 2 \<le> adjust (of_int prev) (of_int d) / getDuration (timeUnit gi) 1"
    by simp
  with pos show "(of_int (count gi) - 1 / 2) * getDuration (timeUnit gi) 1 \<le> adjust (of_int prev) (of_int d)"
    by (simp add: pos_le_divide_eq)
qed

theorem getGridDate_elapsed_units_rounded_witness:
  "getGridDate utcCalendar (isInBreak [halfDayBreak]) (adjustDifference [halfDayBreak])
     \<lparr>timeUnit = day, count = 1\<rparr> 100 1 = Some 172800000
   \<and> time_round utcCalendar 100 day 1 = 0
   \<and> (1::int) \<le> \<lfloor>adjustDifference [halfDayBreak] 0 172800000 / getDuration day 1 + 1 / 2\<rfloor>
   \<and> (1 - 1 / 2) * getDuration day 1 \<le> adjustDifference [halfDayBreak] 0 172800000"
proof -
  have prev: "(0::int) = time_round utcCalendar 100 (timeUnit \<lparr>timeUnit = day, count = 1\<rparr>) 1"
    by (simp add: utcCalendar_def)
  from getGridDate_elapsed_units_rounded [OF utcCalendar_round_idem prev,
      of "isInBreak [halfDayBreak]" "adjustDifference [halfDayBreak]" 1 172800000]
    getGridDate_halfDayBreak prev
  show ?thesis by simp
qed

text \<open>
  Claim C4 as stated fails: with a collapsed break from 06:00 to 12:00 of the next day and a
  grid interval of one day, the date returned for midnight is two days later, which is 18
  hours past it once the break is removed, less than the grid interval.
\<close>

theorem getGridDate_full_interval_counterexample:
  "getGridDate utcCalendar (isInBreak [halfDayBreak]) (adjustDifference [halfDayBreak])
     \<lparr>timeUnit = day, count = 1\<rparr> 0 1 = Some 172800000
   \<and> time_round utcCalendar 0 day 1 = 0
   \<and> adjustDifference [halfDayBreak] 0 172800000 = 64800000
   \<and> (64800000::real) < intervalDuration \<lparr>timeUnit = day, count = 1\<rparr>"
  by (simp add: getGridDate.simps gridDateCandidate_def utcCalendar_def isInBreak_def
        adjustDifference_def halfDayBreak_def emptyBreak_def getDuration_def intervalDuration_def)

section \<open>Properties of the position maps\<close>

text \<open>
  Claim C6, as amended. A position mapped to a point and back is the position mapped to a
  coordinate and back: the two maps of \<^verbatim>\<open>AxisRendererX\<close> add nothing to those of the
  renderer. With the maps of the renderer worded as in the spec, the position comes back
  when the axis has a length other than 0; and on an axis without breaks whose minimum is
  not its maximum, a position mapped to a value and back is the position.
\<close>

theorem position_round_trip:
  "pointToPosition toPosition (positionToPoint toCoordinate position)
      = toPosition (toCoordinate position)
   \<and> (axisLength r \<noteq> 0 \<longrightarrow>
        pointToPosition (coordinateToPosition r) (positionToPoint (positionToCoordinate r) position)
          = Some position)
   \<and> (axis_min ax = Some mn \<and> axis_max ax = Some mx \<and> mn \<noteq> mx \<longrightarrow>
        Option.bind (positionToValue ax position) (valueToPosition ax) = Some position)"
proof (intro conjI impI)
  show "pointToPosition toPosition (positionToPoint toCoordinate position)
      = toPosition (toCoordinate position)"
    by (simp add: pointToPosition_def positionToPoint_def)
next
  assume "axisLength r \<noteq> 0"
  then show "pointToPosition (coordinateToPosition r) (positionToPoint (positionToCoordinate r) position)
      = Some position"
    by (simp add: pointToPosition_def positionToPoint_def coordinateToPosition_def
          positionToCoordinate_def)
next
  assume "axis_min ax = Some mn \<and> axis_max ax = Some mx \<and> mn \<noteq> mx"
  then show "Option.bind (positionToValue ax position) (valueToPosition ax) = Some position"
    by (simp add: positionToValue_def valueToPosition_def)
qed

theorem position_round_trip_witness:
  "axisLength exampleRenderer = 780
   \<and> pointToPosition (coordinateToPosition exampleRenderer)
        (positionToPoint (positionToCoordinate exampleRenderer) (1 / 4)) = Some (1 / 4)
   \<and> positionToPoint (positionToCoordinate exampleRenderer) (1 / 4) = \<lparr>point_x = 195, point_y = 0\<rparr>
   \<and> axis_min exampleValueAxis = Some 0 \<and> axis_max exampleValueAxis = Some 1000
   \<and> positionToValue exampleValueAxis (1 / 4) = Some 250
   \<and> Option.bind (positionToValue exampleValueAxis (1 / 4)) (valueToPosition exampleValueAxis)
       = Some (1 / 4)"
proof -
  have len: "axisLength exampleRenderer = 780"
    by (simp add: axisLength_def exampleRenderer_def)
  have ax: "axis_min exampleValueAxis = Some 0" "axis_max exampleValueAxis = Some 1000"
    by (simp_all add: exampleValueAxis_def)
  note inst = position_round_trip [where r = exampleRenderer and ax = exampleValueAxis
      and position = "1 / 4" and mn = 0 and mx = 1000
      and toPosition = "coordinateToPosition exampleRenderer"
      and toCoordinate = "positionToCoordinate exampleRenderer"]
  from inst [THEN conjunct2, THEN conjunct1, rule_format] len
  have a: "pointToPosition (coordinateToPosition exampleRenderer)
        (positionToPoint (positionToCoordinate exampleRenderer) (1 / 4)) = Some (1 / 4)"
    by simp
  from inst [THEN conjunct2, THEN conjunct2, rule_format] ax
  have b: "Option.bind (positionToValue exampleValueAxis (1 / 4)) (valueToPosition exampleValueAxis)
       = Some (1 / 4)"
    by simp
  have c: "positionToPoint (positionToCoordinate exampleRenderer) (1 / 4) = \<lparr>point_x = 195, point_y = 0\<rparr>"
    by (simp add: positionToPoint_def positionToCoordinate_def len)
  have d: "positionToValue exampleValueAxis (1 / 4) = Some 250"
    by (simp add: positionToValue_def ax)
  from len a c ax d b show ?thesis by (intro conjI)
qed

text \<open>
  Claim C6 as stated fails on an axis without length and on an axis whose minimum is its
  maximum: the position 1/2 maps to the coordinate 0, or to the minimum, and nothing maps
  back to it.
\<close>

theorem position_round_trip_counterexample:
  "axisLength collapsedRenderer = 0
   \<and> positionToPoint (positionToCoordinate collapsedRenderer) (1 / 2) = \<lparr>point_x = 0, point_y = 0\<rparr>
   \<and> pointToPosition (coordinateToPosition collapsedRenderer)
        (positionToPoint (positionToCoordinate collapsedRenderer) (1 / 2)) = None
   \<and> positionToValue pointAxis (1 / 2) = Some 1000
   \<and> Option.bind (positionToValue pointAxis (1 / 2)) (valueToPosition pointAxis) = None"
  by (simp add: axisLength_def collapsedRenderer_def positionToPoint_def positionToCoordinate_def
        pointToPosition_def coordinateToPosition_def positionToValue_def valueToPosition_def
        pointAxis_def)

end
